theory Spec2Isabelle
  imports Complex_Main "HOL-Library.Multiset"
begin

section \<open>Data model\<close>

text \<open>
  The records follow the interfaces of \<^verbatim>\<open>types/bandix.ts\<close>. Byte counts and rates of a
  device are JavaScript numbers that the backend delivers as integers; they are modelled as
  unbounded integers (exact for doubles below \<open>2^53\<close>). The values of a bandwidth
  snapshot are divided by the chart renderer and are modelled as reals.
\<close>

record SpeedLimit =
  enabled :: bool
  downloadLimit :: int
  uploadLimit :: int

record ClientTraffic =
  ip :: string
  mac :: string
  hostname :: "string option"
  download :: int
  upload :: int
  downloadSpeed :: int
  uploadSpeed :: int
  lastSeen :: int
  speedLimit :: "SpeedLimit option"

record BandwidthSnapshot =
  timestamp :: int
  snap_download :: real
  snap_upload :: real

record TotalTraffic =
  total_download :: int
  total_upload :: int
  combined :: int

record BandixStatus =
  running :: bool
  interface :: string
  uptime :: int
  version :: "string option"

datatype SortField = Hostname | Ip | Download | Upload | DownloadSpeed | UploadSpeed

datatype SortDirection = Asc | Desc

record SortSpec =
  sortField :: SortField
  sortDirection :: SortDirection

section \<open>Sort specification\<close>

text \<open>
  \<^verbatim>\<open>handleSort\<close> of the React table (\<^verbatim>\<open>ClientsTable.tsx\<close>): the two state setters
  \<^verbatim>\<open>setSortField\<close> and \<^verbatim>\<open>setSortDirection\<close> become an update of the pair.
\<close>

definition handleSort :: "SortField \<Rightarrow> SortSpec \<Rightarrow> SortSpec" where
  "handleSort field s =
     (if sortField s = field
      then s\<lparr>sortDirection := (if sortDirection s = Asc then Desc else Asc)\<rparr>
      else s\<lparr>sortField := field, sortDirection := Desc\<rparr>)"

text \<open>
  The click handler that \<^verbatim>\<open>initEventHandlers\<close> of \<^verbatim>\<open>app.js\<close> installs on every sortable
  column header; \<^verbatim>\<open>field\<close> is the header's \<^verbatim>\<open>data-sort\<close> attribute.
\<close>

definition sortableClick :: "SortField \<Rightarrow> SortSpec \<Rightarrow> SortSpec" where
  "sortableClick field s =
     (if sortField s = field
      then s\<lparr>sortDirection := (if sortDirection s = Asc then Desc else Asc)\<rparr>
      else s\<lparr>sortDirection := Desc, sortField := field\<rparr>)"

section \<open>Stat aggregation\<close>

text \<open>
  \<^verbatim>\<open>xs.reduce(f, init)\<close> folds from the left.
\<close>

definition reduce :: "('b \<Rightarrow> 'a \<Rightarrow> 'b) \<Rightarrow> 'b \<Rightarrow> 'a list \<Rightarrow> 'b" where
  "reduce f init xs = foldl f init xs"

text \<open>The totals that \<^verbatim>\<open>refreshData\<close> of \<^verbatim>\<open>app.js\<close> stores in \<^verbatim>\<open>state.totalTraffic\<close>.\<close>

definition totalTraffic_of :: "ClientTraffic list \<Rightarrow> TotalTraffic" where
  "totalTraffic_of clients =
     \<lparr>total_download = reduce (\<lambda>sum c. sum + download c) 0 clients,
      total_upload = reduce (\<lambda>sum c. sum + upload c) 0 clients,
      combined = reduce (\<lambda>sum c. sum + download c + upload c) 0 clients\<rparr>"

text \<open>The instantaneous totals of \<^verbatim>\<open>Index.tsx\<close> (and of \<^verbatim>\<open>updateStats\<close> in \<^verbatim>\<open>app.js\<close>).\<close>

definition totalDownloadSpeed :: "ClientTraffic list \<Rightarrow> int" where
  "totalDownloadSpeed clients = reduce (\<lambda>sum c. sum + downloadSpeed c) 0 clients"

definition totalUploadSpeed :: "ClientTraffic list \<Rightarrow> int" where
  "totalUploadSpeed clients = reduce (\<lambda>sum c. sum + uploadSpeed c) 0 clients"

section \<open>History buffer\<close>

text \<open>
  \<^verbatim>\<open>generateDemoHistory\<close> keeps the sliding window of snapshots (\<^verbatim>\<open>historyBuffer\<close> in
  \<^verbatim>\<open>bandixApi.ts\<close>, \<^verbatim>\<open>state.history\<close> in \<^verbatim>\<open>app.js\<close>). Its capacity is
  \<^verbatim>\<open>CONFIG.historyLength\<close> in \<^verbatim>\<open>app.js\<close> and the literal 60 in \<^verbatim>\<open>bandixApi.ts\<close>.
\<close>

definition historyLength :: nat where
  "historyLength = 60"

text \<open>
  One call reads the clock once (\<^verbatim>\<open>Date.now()\<close>) and draws two random numbers for every
  point it pushes. Both are inputs of the model: \<open>now\<close> is the clock reading and \<open>rnd i\<close> the
  pair of \<^verbatim>\<open>Math.random()\<close> results used for the point with loop counter \<open>i\<close> (counter
  \<open>0\<close> for the single point of a later call).
\<close>

type_synonym Draws = "nat \<Rightarrow> real \<times> real"

definition demoPoint :: "int \<Rightarrow> real \<times> real \<Rightarrow> BandwidthSnapshot" where
  "demoPoint t r =
     \<lparr>timestamp = t,
      snap_download = 20000000 + fst r * 40000000,
      snap_upload = 5000000 + snd r * 10000000\<rparr>"

text \<open>
  The loop \<^verbatim>\<open>for (let i = historyLength - 1; i >= 0; i--) push(...)\<close>; the third argument
  is \<open>i + 1\<close>, so the loop ends when it reaches \<open>0\<close>.
\<close>

fun initLoop :: "int \<Rightarrow> Draws \<Rightarrow> nat \<Rightarrow> BandwidthSnapshot list \<Rightarrow> BandwidthSnapshot list" where
  "initLoop now rnd 0 buf = buf"
| "initLoop now rnd (Suc i) buf =
     initLoop now rnd i (buf @ [demoPoint (now - int i * 1000) (rnd i)])"

text \<open>\<^verbatim>\<open>push\<close> appends at the tail, \<^verbatim>\<open>shift\<close> removes the head.\<close>

definition generateDemoHistory :: "int \<Rightarrow> Draws \<Rightarrow> BandwidthSnapshot list \<Rightarrow> BandwidthSnapshot list" where
  "generateDemoHistory now rnd buf =
     (if length buf = 0 then initLoop now rnd historyLength buf
      else let pushed = buf @ [demoPoint now (rnd 0)]
           in if length pushed > historyLength then tl pushed else pushed)"

text \<open>A sequence of calls, each with its clock reading and its random draws.\<close>

definition runHistory :: "(int \<times> Draws) list \<Rightarrow> BandwidthSnapshot list \<Rightarrow> BandwidthSnapshot list" where
  "runHistory calls buf = foldl (\<lambda>b c. generateDemoHistory (fst c) (snd c) b) buf calls"

text \<open>
  For the statement of the window property: the snapshots one call pushes, the trace of
  all snapshots pushed by a sequence of calls, and the last \<open>n\<close> elements of a list.
\<close>

definition pushedBy :: "int \<Rightarrow> Draws \<Rightarrow> BandwidthSnapshot list \<Rightarrow> BandwidthSnapshot list" where
  "pushedBy now rnd buf =
     (if length buf = 0 then initLoop now rnd historyLength [] else [demoPoint now (rnd 0)])"

definition traceHistory ::
  "(int \<times> Draws) list \<Rightarrow> BandwidthSnapshot list \<times> BandwidthSnapshot list
     \<Rightarrow> BandwidthSnapshot list \<times> BandwidthSnapshot list" where
  "traceHistory calls start =
     foldl (\<lambda>bt c. (generateDemoHistory (fst c) (snd c) (fst bt),
                     snd bt @ pushedBy (fst c) (snd c) (fst bt))) start calls"

definition lastN :: "nat \<Rightarrow> 'a list \<Rightarrow> 'a list" where
  "lastN n xs = drop (length xs - n) xs"

section \<open>Poll scheduler\<close>

text \<open>
  \<^verbatim>\<open>refreshData\<close> is an async function: it runs up to its \<^verbatim>\<open>await Promise.all(...)\<close>
  when it is called, and its continuation (the commit and the \<^verbatim>\<open>finally\<close> block) runs
  later, when the requests have settled. The single execution context interleaves whole
  such pieces, so each piece is a function on the scheduler's state: the flag
  \<^verbatim>\<open>isRefreshing\<close> and, as a ghost counter, the number of cycles that have started and not
  yet finished.
\<close>

record Scheduler =
  isRefreshing :: bool
  inFlight :: nat

datatype SchedEvent = Trigger | Settle

text \<open>\<^verbatim>\<open>refreshData\<close> of \<^verbatim>\<open>app.js\<close>, up to the await: the guard, then the flag.\<close>

definition refreshData_begin :: "Scheduler \<Rightarrow> Scheduler" where
  "refreshData_begin s =
     (if isRefreshing s then s
      else s\<lparr>isRefreshing := True, inFlight := inFlight s + 1\<rparr>)"

text \<open>The continuation of a cycle ends in \<^verbatim>\<open>finally { state.isRefreshing = false }\<close>.\<close>

definition refreshData_finish :: "Scheduler \<Rightarrow> Scheduler" where
  "refreshData_finish s = s\<lparr>isRefreshing := False, inFlight := inFlight s - 1\<rparr>"

text \<open>
  \<^verbatim>\<open>refreshData\<close> of \<^verbatim>\<open>Index.tsx\<close>: \<^verbatim>\<open>setIsRefreshing(true)\<close> and the requests, with no
  test of the flag; its continuation ends in \<^verbatim>\<open>setIsRefreshing(false)\<close>.
\<close>

definition refreshData_tsx_begin :: "Scheduler \<Rightarrow> Scheduler" where
  "refreshData_tsx_begin s = s\<lparr>isRefreshing := True, inFlight := inFlight s + 1\<rparr>"

definition refreshData_tsx_finish :: "Scheduler \<Rightarrow> Scheduler" where
  "refreshData_tsx_finish s = s\<lparr>isRefreshing := False, inFlight := inFlight s - 1\<rparr>"

text \<open>
  A trigger (timer tick of \<^verbatim>\<open>setInterval\<close> or a manual refresh) calls \<^verbatim>\<open>refreshData\<close>;
  a settle event runs the continuation of a cycle in flight, and cannot happen when none
  is.
\<close>

fun step :: "Scheduler \<Rightarrow> SchedEvent \<Rightarrow> Scheduler" where
  "step s Trigger = refreshData_begin s"
| "step s Settle = (if inFlight s = 0 then s else refreshData_finish s)"

fun step_tsx :: "Scheduler \<Rightarrow> SchedEvent \<Rightarrow> Scheduler" where
  "step_tsx s Trigger = refreshData_tsx_begin s"
| "step_tsx s Settle = (if inFlight s = 0 then s else refreshData_tsx_finish s)"

definition idle :: Scheduler where
  "idle = \<lparr>isRefreshing = False, inFlight = 0\<rparr>"

definition run :: "SchedEvent list \<Rightarrow> Scheduler" where
  "run events = foldl step idle events"

definition run_tsx :: "SchedEvent list \<Rightarrow> Scheduler" where
  "run_tsx events = foldl step_tsx idle events"

text \<open>
  The guard of \<^verbatim>\<open>app.js\<close> keeps the flag and the counter in step: the flag is set exactly
  when one cycle is in flight, and there is never a second one.
\<close>

definition guarded :: "Scheduler \<Rightarrow> bool" where
  "guarded s = ((isRefreshing s \<and> inFlight s = 1) \<or> (\<not> isRefreshing s \<and> inFlight s = 0))"

section \<open>Data-access client and the commit of a cycle\<close>

text \<open>
  What a read request comes back with: \<^verbatim>\<open>fetch\<close> rejects, the response is not
  \<^verbatim>\<open>ok\<close>, \<^verbatim>\<open>response.json()\<close> rejects, or the body parses to a value.
\<close>

datatype 'a Response = NetworkFailure | NotOk | BadJson | Json 'a

datatype FetchError = FetchRejected | Failed string | JsonRejected

text \<open>
  The readers of \<^verbatim>\<open>app.js\<close>. In demo mode no request is made and generated data (the
  argument \<open>demo\<close>) is returned; otherwise every failure is caught and replaced by the default.
\<close>

definition fetchClients :: "bool \<Rightarrow> ClientTraffic list \<Rightarrow> ClientTraffic list Response \<Rightarrow> ClientTraffic list" where
  "fetchClients demoMode demo r =
     (if demoMode then demo else (case r of Json v \<Rightarrow> v | _ \<Rightarrow> []))"

definition fetchHistory :: "bool \<Rightarrow> BandwidthSnapshot list \<Rightarrow> BandwidthSnapshot list Response \<Rightarrow> BandwidthSnapshot list" where
  "fetchHistory demoMode demo r =
     (if demoMode then demo else (case r of Json v \<Rightarrow> v | _ \<Rightarrow> []))"

definition fetchStatus :: "bool \<Rightarrow> BandixStatus \<Rightarrow> BandixStatus Response \<Rightarrow> BandixStatus" where
  "fetchStatus demoMode demo r =
     (if demoMode then demo
      else (case r of Json v \<Rightarrow> v
            | _ \<Rightarrow> \<lparr>running = False, interface = ''unknown'', uptime = 0, version = None\<rparr>))"

text \<open>The part of \<^verbatim>\<open>state\<close> in \<^verbatim>\<open>app.js\<close> that a poll cycle writes.\<close>

record State =
  clients :: "ClientTraffic list"
  history :: "BandwidthSnapshot list"
  status :: BandixStatus
  totalTraffic :: TotalTraffic

record Demo =
  demoClients :: "ClientTraffic list"
  demoHistory :: "BandwidthSnapshot list"
  demoStatus :: BandixStatus
  demoTotal :: TotalTraffic

text \<open>
  The continuation of \<^verbatim>\<open>refreshData\<close> in \<^verbatim>\<open>app.js\<close> after the three reads have settled
  (none of them rejects): the results are stored and the totals recomputed.
\<close>

definition refreshData_commit ::
  "bool \<Rightarrow> Demo \<Rightarrow> ClientTraffic list Response \<Rightarrow> BandwidthSnapshot list Response
     \<Rightarrow> BandixStatus Response \<Rightarrow> State \<Rightarrow> State" where
  "refreshData_commit demoMode demo rc rh rs st =
     (let cs = fetchClients demoMode (demoClients demo) rc;
          h = fetchHistory demoMode (demoHistory demo) rh;
          s = fetchStatus demoMode (demoStatus demo) rs
      in st\<lparr>clients := cs, history := h, status := s, totalTraffic := totalTraffic_of cs\<rparr>)"

text \<open>
  The readers of \<^verbatim>\<open>bandixApi.ts\<close> have no \<^verbatim>\<open>try\<close>: a failed request rejects the promise.
\<close>

definition fetch_ts :: "string \<Rightarrow> bool \<Rightarrow> 'a \<Rightarrow> 'a Response \<Rightarrow> FetchError + 'a" where
  "fetch_ts message demoMode demo r =
     (if demoMode then Inr demo
      else (case r of
              NetworkFailure \<Rightarrow> Inl FetchRejected
            | NotOk \<Rightarrow> Inl (Failed message)
            | BadJson \<Rightarrow> Inl JsonRejected
            | Json v \<Rightarrow> Inr v))"

definition fetchClients_ts :: "bool \<Rightarrow> ClientTraffic list \<Rightarrow> ClientTraffic list Response \<Rightarrow> FetchError + ClientTraffic list" where
  "fetchClients_ts = fetch_ts ''Failed to fetch clients''"

definition fetchHistory_ts :: "bool \<Rightarrow> BandwidthSnapshot list \<Rightarrow> BandwidthSnapshot list Response \<Rightarrow> FetchError + BandwidthSnapshot list" where
  "fetchHistory_ts = fetch_ts ''Failed to fetch history''"

definition fetchTotalTraffic_ts :: "bool \<Rightarrow> TotalTraffic \<Rightarrow> TotalTraffic Response \<Rightarrow> FetchError + TotalTraffic" where
  "fetchTotalTraffic_ts = fetch_ts ''Failed to fetch stats''"

definition fetchStatus_ts :: "bool \<Rightarrow> BandixStatus \<Rightarrow> BandixStatus Response \<Rightarrow> FetchError + BandixStatus" where
  "fetchStatus_ts = fetch_ts ''Failed to fetch status''"

text \<open>The state of the page \<^verbatim>\<open>Index.tsx\<close> that a poll cycle writes.\<close>

record PageState =
  page_clients :: "ClientTraffic list"
  page_history :: "BandwidthSnapshot list"
  page_totalTraffic :: "TotalTraffic option"
  page_status :: "BandixStatus option"

text \<open>
  The continuation of \<^verbatim>\<open>refreshData\<close> in \<^verbatim>\<open>Index.tsx\<close>: \<^verbatim>\<open>Promise.all\<close> rejects as soon
  as one read rejects, the \<^verbatim>\<open>catch\<close> block only logs, and the four setters run only when
  all four reads succeeded.
\<close>

definition refreshData_tsx_commit ::
  "bool \<Rightarrow> Demo \<Rightarrow> ClientTraffic list Response \<Rightarrow> BandwidthSnapshot list Response
     \<Rightarrow> TotalTraffic Response \<Rightarrow> BandixStatus Response \<Rightarrow> PageState \<Rightarrow> PageState" where
  "refreshData_tsx_commit demoMode demo rc rh rt rs st =
     (case fetchClients_ts demoMode (demoClients demo) rc of
        Inl e \<Rightarrow> st
      | Inr cs \<Rightarrow>
          (case fetchHistory_ts demoMode (demoHistory demo) rh of
             Inl e \<Rightarrow> st
           | Inr h \<Rightarrow>
               (case fetchTotalTraffic_ts demoMode (demoTotal demo) rt of
                  Inl e \<Rightarrow> st
                | Inr t \<Rightarrow>
                    (case fetchStatus_ts demoMode (demoStatus demo) rs of
                       Inl e \<Rightarrow> st
                     | Inr s \<Rightarrow>
                         st\<lparr>page_clients := cs, page_history := h,
                            page_totalTraffic := Some t, page_status := Some s\<rparr>))))"

section \<open>Sort engine\<close>

subsection \<open>JavaScript values and the operators the comparators use\<close>

text \<open>
  The comparators read a field of a device by its name and then branch on what they got,
  so the value read is dynamically typed: \<^verbatim>\<open>undefined\<close> (an optional field that is
  absent), a number or a string. A number that results from an operator may be \<^verbatim>\<open>NaN\<close>,
  which is \<open>None\<close> in \<open>int option\<close>.
\<close>

datatype JsValue = JsUndefined | JsNumber int | JsString string

datatype JsError = TypeError

text \<open>\<^verbatim>\<open>a[sortField]\<close> on a device of type \<^verbatim>\<open>ClientTraffic\<close>.\<close>

fun getField :: "SortField \<Rightarrow> ClientTraffic \<Rightarrow> JsValue" where
  "getField Hostname c = (case hostname c of None \<Rightarrow> JsUndefined | Some h \<Rightarrow> JsString h)"
| "getField Ip c = JsString (ip c)"
| "getField Download c = JsNumber (download c)"
| "getField Upload c = JsNumber (upload c)"
| "getField DownloadSpeed c = JsNumber (downloadSpeed c)"
| "getField UploadSpeed c = JsNumber (uploadSpeed c)"

text \<open>\<^verbatim>\<open>a ?? b\<close>: the right operand only when the left one is \<^verbatim>\<open>undefined\<close> (or \<^verbatim>\<open>null\<close>).\<close>

definition nullish :: "JsValue \<Rightarrow> JsValue \<Rightarrow> JsValue" where
  "nullish a b = (if a = JsUndefined then b else a)"

text \<open>\<^verbatim>\<open>a || b\<close>: the right operand when the left one is falsy; \<open>0\<close> and \<open>''\<close> are falsy.\<close>

fun falsy :: "JsValue \<Rightarrow> bool" where
  "falsy JsUndefined = True"
| "falsy (JsNumber n) = (n = 0)"
| "falsy (JsString s) = (s = [])"

definition logicalOr :: "JsValue \<Rightarrow> JsValue \<Rightarrow> JsValue" where
  "logicalOr a b = (if falsy a then b else a)"

text \<open>\<^verbatim>\<open>typeof v === 'string'\<close>.\<close>

fun isString :: "JsValue \<Rightarrow> bool" where
  "isString (JsString s) = True"
| "isString v = False"

text \<open>The decimal representation of an integer, as \<^verbatim>\<open>ToString\<close> gives it.\<close>

fun digitsOf :: "nat \<Rightarrow> string" where
  "digitsOf n =
     (if n < 10 then [char_of (48 + n)]
      else digitsOf (n div 10) @ [char_of (48 + n mod 10)])"

declare digitsOf.simps [simp del]

fun toString :: "JsValue \<Rightarrow> string" where
  "toString JsUndefined = ''undefined''"
| "toString (JsNumber n) = (if n < 0 then CHR ''-'' # digitsOf (nat (- n)) else digitsOf (nat n))"
| "toString (JsString s) = s"

text \<open>
  \<^verbatim>\<open>ToNumber\<close>, as far as the comparators need it: the only string that reaches a
  subtraction is the fallback \<open>''\<close>, which converts to \<open>0\<close> (lemma
  \<open>subtraction_operands\<close> below); other strings are not parsed here and give \<^verbatim>\<open>NaN\<close>.
\<close>

fun toNumber :: "JsValue \<Rightarrow> int option" where
  "toNumber JsUndefined = None"
| "toNumber (JsNumber n) = Some n"
| "toNumber (JsString s) = (if s = [] then Some 0 else None)"

text \<open>\<^verbatim>\<open>a - b\<close>.\<close>

definition jsMinus :: "JsValue \<Rightarrow> JsValue \<Rightarrow> int option" where
  "jsMinus a b =
     (case toNumber a of
        None \<Rightarrow> None
      | Some x \<Rightarrow> (case toNumber b of None \<Rightarrow> None | Some y \<Rightarrow> Some (x - y)))"

text \<open>
  The method call \<^verbatim>\<open>a.localeCompare(b)\<close>. Only strings have the method: on a number the
  property is \<^verbatim>\<open>undefined\<close> and the call raises a \<^verbatim>\<open>TypeError\<close>. On a string the platform's
  collation decides; it is not part of the repository and is the parameter \<open>lc\<close> (negative,
  zero or positive), applied to the receiver and to the argument converted to a string.
\<close>

fun localeCompare :: "(string \<Rightarrow> string \<Rightarrow> int) \<Rightarrow> JsValue \<Rightarrow> JsValue \<Rightarrow> JsError + int option" where
  "localeCompare lc (JsString s) b = Inr (Some (lc s (toString b)))"
| "localeCompare lc a b = Inl TypeError"

text \<open>
  \<^verbatim>\<open>toLowerCase\<close> on the ASCII letters; the characters of a \<open>string\<close> are bytes, and
  bytes outside \<open>A\<close>..\<open>Z\<close> are left as they are.
\<close>

definition toLowerChar :: "char \<Rightarrow> char" where
  "toLowerChar c =
     (let n = (of_char c :: nat) in if 65 \<le> n \<and> n \<le> 90 then char_of (n + 32) else c)"

definition toLowerCase :: "string \<Rightarrow> string" where
  "toLowerCase s = map toLowerChar s"

subsection \<open>Display name\<close>

text \<open>
  \<^verbatim>\<open>shortHostname\<close> of \<^verbatim>\<open>formatters.ts\<close> and \<^verbatim>\<open>app.js\<close>: \<^verbatim>\<open>!hostname\<close> holds for an
  absent and for an empty name; \<^verbatim>\<open>hostname.split('.')[0]\<close> is the part before the first
  dot.
\<close>

definition shortHostname :: "string option \<Rightarrow> string" where
  "shortHostname h =
     (case h of
        None \<Rightarrow> ''Unknown''
      | Some s \<Rightarrow> if s = [] then ''Unknown'' else takeWhile (\<lambda>c. c \<noteq> CHR ''.'') s)"

subsection \<open>The comparator of the React table\<close>

text \<open>The comparator passed to \<^verbatim>\<open>sort\<close> in \<^verbatim>\<open>ClientsTable.tsx\<close>.\<close>

definition compareClients ::
  "(string \<Rightarrow> string \<Rightarrow> int) \<Rightarrow> SortField \<Rightarrow> SortDirection
     \<Rightarrow> ClientTraffic \<Rightarrow> ClientTraffic \<Rightarrow> JsError + int option" where
  "compareClients lc sf sd a b =
     (let aVal0 = nullish (getField sf a) (JsString []);
          bVal0 = nullish (getField sf b) (JsString []);
          aVal = (if sf = Hostname
                  then JsString (toLowerCase (shortHostname (hostname a))) else aVal0);
          bVal = (if sf = Hostname
                  then JsString (toLowerCase (shortHostname (hostname b))) else bVal0)
      in if isString aVal
         then (if sd = Asc then localeCompare lc aVal bVal else localeCompare lc bVal aVal)
         else Inr (if sd = Asc then jsMinus aVal bVal else jsMinus bVal aVal))"

subsection \<open>The comparator of the vanilla table\<close>

text \<open>
  In \<^verbatim>\<open>app.js\<close> the fallback is \<^verbatim>\<open>a[state.sortField] || ''\<close> and \<^verbatim>\<open>shortHostname\<close> is
  applied to the value after the fallback, which for the field \<^verbatim>\<open>hostname\<close> is a string.
\<close>

fun stringArg :: "JsValue \<Rightarrow> string option" where
  "stringArg (JsString s) = Some s"
| "stringArg v = None"

definition compareClients_js ::
  "(string \<Rightarrow> string \<Rightarrow> int) \<Rightarrow> SortField \<Rightarrow> SortDirection
     \<Rightarrow> ClientTraffic \<Rightarrow> ClientTraffic \<Rightarrow> JsError + int option" where
  "compareClients_js lc sf sd a b =
     (let aVal0 = logicalOr (getField sf a) (JsString []);
          bVal0 = logicalOr (getField sf b) (JsString []);
          aVal = (if sf = Hostname
                  then JsString (toLowerCase (shortHostname (stringArg aVal0))) else aVal0);
          bVal = (if sf = Hostname
                  then JsString (toLowerCase (shortHostname (stringArg bVal0))) else bVal0)
      in if isString aVal
         then (if sd = Asc then localeCompare lc aVal bVal else localeCompare lc bVal aVal)
         else Inr (if sd = Asc then jsMinus aVal bVal else jsMinus bVal aVal))"

subsection \<open>Array.prototype.sort\<close>

text \<open>
  The platform's \<^verbatim>\<open>sort\<close> is not code of the repository. ECMAScript requires it to be
  stable and to order by the sign of the comparator's result, a \<^verbatim>\<open>NaN\<close> result counting
  as \<open>0\<close>; an exception of the comparator ends the sort. The model is the stable insertion
  sort: each element, from the last to the first, is put in front of the first element of
  the sorted rest that it does not have to follow.
\<close>

definition sortCompare :: "int option \<Rightarrow> int" where
  "sortCompare v = (case v of None \<Rightarrow> 0 | Some n \<Rightarrow> n)"

fun insertSorted :: "('a \<Rightarrow> 'a \<Rightarrow> JsError + int option) \<Rightarrow> 'a \<Rightarrow> 'a list \<Rightarrow> JsError + 'a list" where
  "insertSorted cmp x [] = Inr [x]"
| "insertSorted cmp x (y # ys) =
     (case cmp x y of
        Inl e \<Rightarrow> Inl e
      | Inr v \<Rightarrow>
          if sortCompare v \<le> 0 then Inr (x # y # ys)
          else (case insertSorted cmp x ys of Inl e \<Rightarrow> Inl e | Inr zs \<Rightarrow> Inr (y # zs)))"

fun arraySort :: "('a \<Rightarrow> 'a \<Rightarrow> JsError + int option) \<Rightarrow> 'a list \<Rightarrow> JsError + 'a list" where
  "arraySort cmp [] = Inr []"
| "arraySort cmp (x # xs) =
     (case arraySort cmp xs of Inl e \<Rightarrow> Inl e | Inr ys \<Rightarrow> insertSorted cmp x ys)"

text \<open>
  For the statements: \<open>x\<close> does not have to come after \<open>y\<close>, by the comparator.
\<close>

definition notAfter :: "('a \<Rightarrow> 'a \<Rightarrow> JsError + int option) \<Rightarrow> 'a \<Rightarrow> 'a \<Rightarrow> bool" where
  "notAfter cmp x y = (case cmp x y of Inl e \<Rightarrow> False | Inr v \<Rightarrow> sortCompare v \<le> 0)"

text \<open>\<^verbatim>\<open>sortedClients\<close> of \<^verbatim>\<open>ClientsTable.tsx\<close>: \<^verbatim>\<open>[...clients].sort(comparator)\<close>.\<close>

definition sortedClients ::
  "(string \<Rightarrow> string \<Rightarrow> int) \<Rightarrow> SortSpec \<Rightarrow> ClientTraffic list \<Rightarrow> JsError + ClientTraffic list" where
  "sortedClients lc spec cs = arraySort (compareClients lc (sortField spec) (sortDirection spec)) cs"

text \<open>The list \<^verbatim>\<open>sorted\<close> of \<^verbatim>\<open>updateClientsTable\<close> in \<^verbatim>\<open>app.js\<close>.\<close>

definition updateClientsTable_sorted ::
  "(string \<Rightarrow> string \<Rightarrow> int) \<Rightarrow> SortSpec \<Rightarrow> ClientTraffic list \<Rightarrow> JsError + ClientTraffic list" where
  "updateClientsTable_sorted lc spec cs =
     arraySort (compareClients_js lc (sortField spec) (sortDirection spec)) cs"

text \<open>
  For the statements: the order key of the display name, and a comparison of strings by
  their bytes that stands for the collation where a concrete one is needed.
\<close>

definition sortKey :: "ClientTraffic \<Rightarrow> string" where
  "sortKey c = toLowerCase (shortHostname (hostname c))"

fun codeUnitCompare :: "string \<Rightarrow> string \<Rightarrow> int" where
  "codeUnitCompare [] [] = 0"
| "codeUnitCompare [] (y # ys) = - 1"
| "codeUnitCompare (x # xs) [] = 1"
| "codeUnitCompare (x # xs) (y # ys) =
     (if (of_char x :: nat) < of_char y then - 1
      else if (of_char y :: nat) < of_char x then 1
      else codeUnitCompare xs ys)"

text \<open>For the statements: the number a numeric sort field holds.\<close>

definition numberOf :: "SortField \<Rightarrow> ClientTraffic \<Rightarrow> int" where
  "numberOf f c = (case getField f c of JsNumber n \<Rightarrow> n | _ \<Rightarrow> 0)"

text \<open>A device for the concrete examples: a display name and a download rate.\<close>

definition exampleDevice :: "string option \<Rightarrow> int \<Rightarrow> ClientTraffic" where
  "exampleDevice h n =
     \<lparr>ip = ''192.168.1.100'', mac = ''AA:BB:CC:DD:EE:01'', hostname = h,
      download = 0, upload = 0, downloadSpeed = n, uploadSpeed = 0, lastSeen = 0,
      speedLimit = None\<rparr>"

section \<open>Chart renderer\<close>

text \<open>
  \<^verbatim>\<open>updateChart\<close> of \<^verbatim>\<open>app.js\<close> draws on a canvas; the model returns the list of the
  drawing calls it makes, in order. \<^verbatim>\<open>chart\<close> is \<^verbatim>\<open>null\<close> until \<^verbatim>\<open>initChart\<close> has run.
\<close>

record Canvas =
  width :: int
  height :: int

datatype DrawOp =
    ClearRect real real real real
  | BeginPath
  | MoveTo real real
  | LineTo real real
  | ClosePath
  | FillGradient string
  | Stroke string

text \<open>
  A JavaScript division by zero raises nothing: it yields an infinity or \<^verbatim>\<open>NaN\<close>, and
  the coordinates drawn are then meaningless. The model makes the event visible: a
  division whose divisor is zero is the error \<open>DivisionByZero\<close>.
\<close>

datatype RenderError = DivisionByZero

definition jsDivide :: "real \<Rightarrow> real \<Rightarrow> RenderError + real" where
  "jsDivide a b = (if b = 0 then Inl DivisionByZero else Inr (a / b))"

definition padding_top :: real where "padding_top = 10"
definition padding_right :: real where "padding_right = 10"
definition padding_bottom :: real where "padding_bottom = 10"
definition padding_left :: real where "padding_left = 10"

text \<open>\<^verbatim>\<open>state.history.flatMap(p => [p.download, p.upload])\<close>.\<close>

definition allValues :: "BandwidthSnapshot list \<Rightarrow> real list" where
  "allValues h = concat (map (\<lambda>p. [snap_download p, snap_upload p]) h)"

text \<open>
  \<^verbatim>\<open>Math.max(...allValues, 1)\<close>: the maximum of the arguments in their order, the last
  one being \<open>1\<close>.
\<close>

definition maxValue :: "BandwidthSnapshot list \<Rightarrow> real" where
  "maxValue h = foldr max (allValues h) 1"

text \<open>The divisor \<^verbatim>\<open>(points - 1 || 1)\<close> of \<^verbatim>\<open>stepX\<close>.\<close>

definition stepDivisor :: "int \<Rightarrow> int" where
  "stepDivisor points = (if points - 1 = 0 then 1 else points - 1)"

text \<open>
  The coordinates that a \<^verbatim>\<open>forEach\<close> of \<^verbatim>\<open>drawArea\<close> computes for the points of a series,
  from index \<open>i\<close> on.
\<close>

fun pathPoints :: "Canvas \<Rightarrow> real \<Rightarrow> real \<Rightarrow> nat \<Rightarrow> real list \<Rightarrow> RenderError + (real \<times> real) list" where
  "pathPoints cv stepX maxV i [] = Inr []"
| "pathPoints cv stepX maxV i (point # rest) =
     (case jsDivide point maxV of
        Inl e \<Rightarrow> Inl e
      | Inr q \<Rightarrow>
          (let x = padding_left + real i * stepX;
               y = real_of_int (height cv) - padding_bottom
                     - q * (real_of_int (height cv) - padding_top - padding_bottom)
           in case pathPoints cv stepX maxV (Suc i) rest of
                Inl e \<Rightarrow> Inl e
              | Inr ps \<Rightarrow> Inr ((x, y) # ps)))"

text \<open>The second \<^verbatim>\<open>forEach\<close>: \<^verbatim>\<open>moveTo\<close> for the first point, \<^verbatim>\<open>lineTo\<close> for the others.\<close>

fun strokePath :: "(real \<times> real) list \<Rightarrow> DrawOp list" where
  "strokePath [] = []"
| "strokePath (p # ps) = MoveTo (fst p) (snd p) # map (\<lambda>q. LineTo (fst q) (snd q)) ps"

definition drawArea ::
  "Canvas \<Rightarrow> real \<Rightarrow> real \<Rightarrow> real list \<Rightarrow> string \<Rightarrow> string \<Rightarrow> RenderError + DrawOp list" where
  "drawArea cv stepX maxV series color fillColor =
     (case pathPoints cv stepX maxV 0 series of
        Inl e \<Rightarrow> Inl e
      | Inr fillPts \<Rightarrow>
          (case pathPoints cv stepX maxV 0 series of
             Inl e \<Rightarrow> Inl e
           | Inr linePts \<Rightarrow>
               Inr ([BeginPath, MoveTo padding_left (real_of_int (height cv) - padding_bottom)]
                    @ map (\<lambda>q. LineTo (fst q) (snd q)) fillPts
                    @ [LineTo (padding_left + (real (length series) - 1) * stepX)
                              (real_of_int (height cv) - padding_bottom),
                       ClosePath, FillGradient fillColor, BeginPath]
                    @ strokePath linePts
                    @ [Stroke color])))"

definition updateChart :: "Canvas option \<Rightarrow> BandwidthSnapshot list \<Rightarrow> RenderError + DrawOp list" where
  "updateChart chart hist =
     (case chart of
        None \<Rightarrow> Inr []
      | Some cv \<Rightarrow>
          if length hist = 0 then Inr []
          else
            (let chartWidth = real_of_int (width cv) - padding_left - padding_right;
                 maxV = maxValue hist;
                 points = int (length hist)
             in case jsDivide chartWidth (real_of_int (stepDivisor points)) of
                  Inl e \<Rightarrow> Inl e
                | Inr stepX \<Rightarrow>
                    (case drawArea cv stepX maxV (map snap_download hist)
                            ''#22c55e'' ''rgba(34, 197, 94, 0.3)'' of
                       Inl e \<Rightarrow> Inl e
                     | Inr down \<Rightarrow>
                         (case drawArea cv stepX maxV (map snap_upload hist)
                                 ''#c084fc'' ''rgba(192, 132, 252, 0.3)'' of
                            Inl e \<Rightarrow> Inl e
                          | Inr up \<Rightarrow>
                              Inr (ClearRect 0 0 (real_of_int (width cv)) (real_of_int (height cv))
                                   # down @ up)))))"

section \<open>Properties of the sort specification\<close>

text \<open>
  Claim C10. A sort action on the active field only flips the direction and keeps the
  field; a sort action on another field makes it the active field and resets the direction
  to descending. Both the React handler and the click handler of \<^verbatim>\<open>app.js\<close> do so.
\<close>

theorem handleSort_transition:
  "(sortField s = f \<longrightarrow>
      sortField (handleSort f s) = sortField s \<and>
      sortDirection (handleSort f s) = (case sortDirection s of Asc \<Rightarrow> Desc | Desc \<Rightarrow> Asc) \<and>
      sortableClick f s = handleSort f s) \<and>
   (sortField s \<noteq> f \<longrightarrow>
      sortField (handleSort f s) = f \<and>
      sortDirection (handleSort f s) = Desc \<and>
      sortableClick f s = handleSort f s)"
  by (cases "sortDirection s") (simp_all add: handleSort_def sortableClick_def)

theorem handleSort_transition_witness:
  "handleSort DownloadSpeed \<lparr>sortField = DownloadSpeed, sortDirection = Desc\<rparr>
     = \<lparr>sortField = DownloadSpeed, sortDirection = Asc\<rparr> \<and>
   handleSort Hostname \<lparr>sortField = DownloadSpeed, sortDirection = Asc\<rparr>
     = \<lparr>sortField = Hostname, sortDirection = Desc\<rparr> \<and>
   sortableClick Hostname \<lparr>sortField = DownloadSpeed, sortDirection = Asc\<rparr>
     = \<lparr>sortField = Hostname, sortDirection = Desc\<rparr>"
  using handleSort_transition [of "\<lparr>sortField = DownloadSpeed, sortDirection = Desc\<rparr>" DownloadSpeed]
    handleSort_transition [of "\<lparr>sortField = DownloadSpeed, sortDirection = Asc\<rparr>" Hostname]
  by (simp add: handleSort_def sortableClick_def)
section \<open>Properties of the stat aggregation\<close>

lemma reduce_add: "reduce (\<lambda>sum c. sum + f c) (a::int) cs = a + sum_list (map f cs)"
  unfolding reduce_def by (induction cs arbitrary: a) simp_all

lemma reduce_add2:
  "reduce (\<lambda>sum c. sum + f c + g c) (a::int) cs = a + sum_list (map f cs) + sum_list (map g cs)"
  unfolding reduce_def by (induction cs arbitrary: a) simp_all

text \<open>
  Claim C8. The totals are the sums, over the device list, of the downloaded bytes, of the
  uploaded bytes and of both together, and the instantaneous totals are the sums of the
  download and of the upload rates. They are all zero on the empty list, and the list
  \<^verbatim>\<open>[{download:100, upload:50}, {download:200, upload:25}]\<close> gives 300, 75 and 375. The
  aggregation is a function of the list only.
\<close>

theorem stat_aggregation:
  "total_download (totalTraffic_of cs) = sum_list (map download cs) \<and>
   total_upload (totalTraffic_of cs) = sum_list (map upload cs) \<and>
   combined (totalTraffic_of cs) = sum_list (map download cs) + sum_list (map upload cs) \<and>
   totalDownloadSpeed cs = sum_list (map downloadSpeed cs) \<and>
   totalUploadSpeed cs = sum_list (map uploadSpeed cs) \<and>
   totalTraffic_of [] = \<lparr>total_download = 0, total_upload = 0, combined = 0\<rparr> \<and>
   totalDownloadSpeed [] = 0 \<and> totalUploadSpeed [] = 0 \<and>
   totalTraffic_of [c1\<lparr>download := 100, upload := 50\<rparr>, c2\<lparr>download := 200, upload := 25\<rparr>]
     = \<lparr>total_download = 300, total_upload = 75, combined = 375\<rparr> \<and>
   totalDownloadSpeed [c1\<lparr>downloadSpeed := 1000, uploadSpeed := 200\<rparr>,
                       c2\<lparr>downloadSpeed := 500, uploadSpeed := 900\<rparr>] = 1500 \<and>
   totalUploadSpeed [c1\<lparr>downloadSpeed := 1000, uploadSpeed := 200\<rparr>,
                     c2\<lparr>downloadSpeed := 500, uploadSpeed := 900\<rparr>] = 1100"
  by (simp add: totalTraffic_of_def totalDownloadSpeed_def totalUploadSpeed_def
        reduce_add reduce_add2)

section \<open>Properties of the chart renderer\<close>

lemma foldr_max_Max: "foldr max vs (b::real) = Max (insert b (set vs))"
proof (induction vs)
  case Nil
  show ?case by simp
next
  case (Cons v vs)
  have "Max (insert b (set (v # vs))) = Max (insert v (insert b (set vs)))"
    by (simp add: insert_commute)
  also have "\<dots> = max v (Max (insert b (set vs)))"
    by (rule Max_insert) simp_all
  finally show ?case using Cons.IH by simp
qed

lemma set_allValues: "set (allValues h) = snap_download ` set h \<union> snap_upload ` set h"
  unfolding allValues_def by (induction h) auto

lemma maxValue_ge_1: "1 \<le> maxValue h"
  unfolding maxValue_def by (simp add: foldr_max_Max)

lemma allValues_zero:
  "allValues (map (\<lambda>t. \<lparr>timestamp = t, snap_download = 0, snap_upload = 0\<rparr>) ts)
     = replicate (2 * length ts) 0"
  unfolding allValues_def by (induction ts) simp_all

lemma foldr_max_replicate_zero: "foldr max (replicate n (0::real)) 1 = 1"
  by (induction n) simp_all

text \<open>
  Claim C6. The vertical scale denominator \<^verbatim>\<open>maxValue\<close> is the maximum of all download and
  upload values of the series and of the floor 1. So it is at least 1, also when every
  value of the series is zero (then it is exactly 1), and the division by it that maps a
  value to its y coordinate never has a zero divisor.
\<close>

theorem maxValue_floor:
  "maxValue h = Max (insert 1 (snap_download ` set h \<union> snap_upload ` set h)) \<and>
   1 \<le> maxValue h \<and>
   maxValue h \<noteq> 0 \<and>
   maxValue (map (\<lambda>t. \<lparr>timestamp = t, snap_download = 0, snap_upload = 0\<rparr>) ts) = 1 \<and>
   jsDivide v (maxValue h) = Inr (v / maxValue h)"
proof -
  have a: "maxValue h = Max (insert 1 (snap_download ` set h \<union> snap_upload ` set h))"
    unfolding maxValue_def by (simp add: foldr_max_Max set_allValues)
  have b: "1 \<le> maxValue h" by (rule maxValue_ge_1)
  have c: "maxValue h \<noteq> 0" using b by simp
  have d: "maxValue (map (\<lambda>t. \<lparr>timestamp = t, snap_download = 0, snap_upload = 0\<rparr>) ts) = 1"
    unfolding maxValue_def by (simp only: allValues_zero foldr_max_replicate_zero)
  have e: "jsDivide v (maxValue h) = Inr (v / maxValue h)"
    using c by (simp add: jsDivide_def)
  from a b c d e show ?thesis by blast
qed

lemma stepDivisor_nonzero: "stepDivisor k \<noteq> 0"
  by (simp add: stepDivisor_def)

lemma pathPoints_total:
  "maxV \<noteq> 0 \<Longrightarrow> \<exists>ps. pathPoints cv stepX maxV i series = Inr ps"
proof (induction series arbitrary: i)
  case Nil
  show ?case by simp
next
  case (Cons point rest)
  from Cons.IH [OF Cons.prems, of "Suc i"]
  obtain ps where "pathPoints cv stepX maxV (Suc i) rest = Inr ps" by blast
  with Cons.prems show ?case by (simp add: jsDivide_def Let_def)
qed

lemma drawArea_total:
  assumes "maxV \<noteq> 0"
  shows "\<exists>ops. drawArea cv stepX maxV series color fillColor = Inr ops"
proof -
  from pathPoints_total [OF assms, of cv stepX 0 series]
  obtain ps where "pathPoints cv stepX maxV 0 series = Inr ps" by blast
  then show ?thesis by (simp add: drawArea_def)
qed

lemma updateChart_total: "\<exists>ops. updateChart chart hist = Inr ops"
proof (cases chart)
  case None
  then show ?thesis by (simp add: updateChart_def)
next
  case (Some cv)
  show ?thesis
  proof (cases hist)
    case Nil
    with Some show ?thesis by (simp add: updateChart_def)
  next
    case (Cons p ps)
    define stepX where
      "stepX = (real_of_int (width cv) - padding_left - padding_right)
                 / real_of_int (stepDivisor (int (length hist)))"
    have m: "maxValue hist \<noteq> 0" using maxValue_ge_1 [of hist] by simp
    from drawArea_total [OF m]
    obtain down where d: "drawArea cv stepX (maxValue hist) (map snap_download hist)
        ''#22c55e'' ''rgba(34, 197, 94, 0.3)'' = Inr down" by blast
    from drawArea_total [OF m]
    obtain up where u: "drawArea cv stepX (maxValue hist) (map snap_upload hist)
        ''#c084fc'' ''rgba(192, 132, 252, 0.3)'' = Inr up" by blast
    have "updateChart chart hist
            = Inr (ClearRect 0 0 (real_of_int (width cv)) (real_of_int (height cv)) # down @ up)"
      using Some Cons d u stepDivisor_nonzero [of "int (length hist)"]
      by (simp add: updateChart_def jsDivide_def Let_def stepX_def)
    then show ?thesis by blast
  qed
qed

lemma maxValue_single: "maxValue [p] = max (snap_download p) (max (snap_upload p) 1)"
  by (simp add: maxValue_def allValues_def)

text \<open>
  Claim C7. The renderer is total: it never meets a division by zero. On an empty series
  (and before the chart exists) it returns without a single drawing call. The divisor of
  the horizontal step is \<open>max (k - 1) 1\<close> for every number \<open>k \<ge> 1\<close> of points, so 1 for a
  single point, and a single point is drawn as a degenerate area whose three corners all
  have the x coordinate of the left padding.
\<close>

theorem updateChart_degenerate:
  "updateChart chart [] = Inr [] \<and>
   updateChart None hist = Inr [] \<and>
   (\<exists>ops. updateChart chart hist = Inr ops) \<and>
   stepDivisor 1 = 1 \<and>
   stepDivisor (int (Suc n)) = max (int n) 1 \<and>
   stepDivisor (int (Suc n)) \<noteq> 0 \<and>
   updateChart (Some cv) [p] =
     (let W = real_of_int (width cv); H = real_of_int (height cv);
          yd = H - 10 - (snap_download p / maxValue [p]) * (H - 10 - 10);
          yu = H - 10 - (snap_upload p / maxValue [p]) * (H - 10 - 10)
      in Inr [ClearRect 0 0 W H,
              BeginPath, MoveTo 10 (H - 10), LineTo 10 yd, LineTo 10 (H - 10), ClosePath,
              FillGradient ''rgba(34, 197, 94, 0.3)'', BeginPath, MoveTo 10 yd,
              Stroke ''#22c55e'',
              BeginPath, MoveTo 10 (H - 10), LineTo 10 yu, LineTo 10 (H - 10), ClosePath,
              FillGradient ''rgba(192, 132, 252, 0.3)'', BeginPath, MoveTo 10 yu,
              Stroke ''#c084fc''])"
proof -
  have a: "updateChart chart [] = Inr []"
    by (cases chart) (simp_all add: updateChart_def)
  have b: "updateChart None hist = Inr []"
    by (simp add: updateChart_def)
  have c: "\<exists>ops. updateChart chart hist = Inr ops"
    by (rule updateChart_total)
  have d: "stepDivisor 1 = 1" by (simp add: stepDivisor_def)
  have e: "stepDivisor (int (Suc n)) = max (int n) 1"
    by (cases n) (simp_all add: stepDivisor_def)
  have f: "stepDivisor (int (Suc n)) \<noteq> 0" by (rule stepDivisor_nonzero)
  have m: "maxValue [p] \<noteq> 0" using maxValue_ge_1 [of "[p]"] by simp
  have g: "updateChart (Some cv) [p] =
     (let W = real_of_int (width cv); H = real_of_int (height cv);
          yd = H - 10 - (snap_download p / maxValue [p]) * (H - 10 - 10);
          yu = H - 10 - (snap_upload p / maxValue [p]) * (H - 10 - 10)
      in Inr [ClearRect 0 0 W H,
              BeginPath, MoveTo 10 (H - 10), LineTo 10 yd, LineTo 10 (H - 10), ClosePath,
              FillGradient ''rgba(34, 197, 94, 0.3)'', BeginPath, MoveTo 10 yd,
              Stroke ''#22c55e'',
              BeginPath, MoveTo 10 (H - 10), LineTo 10 yu, LineTo 10 (H - 10), ClosePath,
              FillGradient ''rgba(192, 132, 252, 0.3)'', BeginPath, MoveTo 10 yu,
              Stroke ''#c084fc''])"
    using m
    by (simp add: updateChart_def drawArea_def jsDivide_def stepDivisor_def Let_def
          padding_top_def padding_bottom_def padding_left_def padding_right_def)
  from a b c d e f g show ?thesis by blast
qed

section \<open>Properties of the history buffer\<close>

lemma initLoop_eq:
  "initLoop now rnd n buf
     = buf @ map (\<lambda>i. demoPoint (now - int i * 1000) (rnd i)) (rev [0..<n])"
  by (induction n arbitrary: buf) simp_all

lemma length_initLoop: "length (initLoop now rnd n buf) = length buf + n"
  by (simp add: initLoop_eq)

lemma lastN_Cons: "n \<le> length ys \<Longrightarrow> lastN n (x # ys) = lastN n ys"
  by (simp add: lastN_def Suc_diff_le)

lemma lastN_all: "length xs \<le> n \<Longrightarrow> lastN n xs = xs"
  by (simp add: lastN_def)

lemma generateDemoHistory_full:
  "length buf = historyLength \<Longrightarrow>
   generateDemoHistory now rnd buf = tl buf @ [demoPoint now (rnd 0)]"
  by (cases buf) (simp_all add: generateDemoHistory_def historyLength_def Let_def)

lemma runHistory_Cons:
  "runHistory (c # cs) buf = runHistory cs (generateDemoHistory (fst c) (snd c) buf)"
  by (simp add: runHistory_def)

lemma runHistory_full:
  "length buf = historyLength \<Longrightarrow>
   runHistory cs buf = lastN historyLength (buf @ map (\<lambda>c. demoPoint (fst c) (snd c 0)) cs)
   \<and> length (runHistory cs buf) = historyLength"
proof (induction cs arbitrary: buf)
  case Nil
  then show ?case by (simp add: runHistory_def lastN_def)
next
  case (Cons c cs)
  obtain x xs where buf: "buf = x # xs" using Cons.prems
    by (cases buf) (simp_all add: historyLength_def)
  let ?b = "xs @ [demoPoint (fst c) (snd c 0)]"
  have step: "generateDemoHistory (fst c) (snd c) buf = ?b"
    using generateDemoHistory_full [OF Cons.prems] buf by simp
  have len: "length ?b = historyLength" using Cons.prems buf by simp
  have eq: "lastN historyLength (buf @ map (\<lambda>c. demoPoint (fst c) (snd c 0)) (c # cs))
          = lastN historyLength (?b @ map (\<lambda>c. demoPoint (fst c) (snd c 0)) cs)"
    using len unfolding buf by (simp add: lastN_Cons)
  have run: "runHistory (c # cs) buf = runHistory cs ?b"
    using step by (simp add: runHistory_Cons)
  from Cons.IH [OF len]
  have ih1: "runHistory cs ?b = lastN historyLength (?b @ map (\<lambda>c. demoPoint (fst c) (snd c 0)) cs)"
    and ih2: "length (runHistory cs ?b) = historyLength" by blast+
  show ?case
  proof
    show "runHistory (c # cs) buf
            = lastN historyLength (buf @ map (\<lambda>c. demoPoint (fst c) (snd c 0)) (c # cs))"
      unfolding run eq by (rule ih1)
    show "length (runHistory (c # cs) buf) = historyLength"
      unfolding run by (rule ih2)
  qed
qed

lemma generateDemoHistory_nonempty: "generateDemoHistory now rnd buf \<noteq> []"
proof (cases buf)
  case Nil
  have "length (generateDemoHistory now rnd buf) = historyLength"
    using Nil by (simp add: generateDemoHistory_def length_initLoop)
  then show ?thesis by (auto simp: historyLength_def)
next
  case (Cons x xs)
  then show ?thesis
    by (cases xs) (simp_all add: generateDemoHistory_def Let_def)
qed

lemma traceHistory_nonempty:
  "buf \<noteq> [] \<Longrightarrow>
   traceHistory cs (buf, tr) = (runHistory cs buf, tr @ map (\<lambda>c. demoPoint (fst c) (snd c 0)) cs)"
proof (induction cs arbitrary: buf tr)
  case Nil
  show ?case by (simp add: traceHistory_def runHistory_def)
next
  case (Cons c cs)
  have "traceHistory (c # cs) (buf, tr)
          = traceHistory cs (generateDemoHistory (fst c) (snd c) buf, tr @ [demoPoint (fst c) (snd c 0)])"
    using Cons.prems by (simp add: traceHistory_def pushedBy_def)
  also have "\<dots> = (runHistory cs (generateDemoHistory (fst c) (snd c) buf),
                  (tr @ [demoPoint (fst c) (snd c 0)]) @ map (\<lambda>c. demoPoint (fst c) (snd c 0)) cs)"
    by (rule Cons.IH) (rule generateDemoHistory_nonempty)
  finally show ?case by (simp add: runHistory_Cons)
qed


lemma timestamp_demoPoint: "timestamp (demoPoint t r) = t"
  by (simp add: demoPoint_def)

lemma timestamps_initLoop:
  "map timestamp (initLoop now rnd n []) = map (\<lambda>i. now - int i * 1000) (rev [0..<n])"
  by (simp add: initLoop_eq timestamp_demoPoint comp_def)

lemma sorted_initLoop: "sorted (map timestamp (initLoop now rnd n []))"
proof -
  have "sorted_wrt (\<lambda>i j. now - int j * 1000 \<le> now - int i * 1000) [0..<n]"
    by (rule sorted_wrt_mono_rel [where P = "(<)"]) (simp_all add: sorted_wrt_upt)
  then show ?thesis
    by (simp add: timestamps_initLoop sorted_wrt_map sorted_wrt_rev)
qed

lemma initLoop_le_now: "t \<in> set (map timestamp (initLoop now rnd n [])) \<Longrightarrow> t \<le> now"
  by (auto simp: timestamps_initLoop)

lemma sorted_lastN: "sorted xs \<Longrightarrow> sorted (lastN n xs)"
  by (simp add: lastN_def sorted_wrt_drop)

lemma runHistory_first:
  "runHistory (c # cs) []
     = lastN historyLength
         (initLoop (fst c) (snd c) historyLength [] @ map (\<lambda>c. demoPoint (fst c) (snd c 0)) cs)
   \<and> length (runHistory (c # cs) []) = historyLength"
proof -
  have run: "runHistory (c # cs) [] = runHistory cs (initLoop (fst c) (snd c) historyLength [])"
    by (simp add: runHistory_Cons generateDemoHistory_def)
  have len: "length (initLoop (fst c) (snd c) historyLength []) = historyLength"
    by (simp add: length_initLoop)
  show ?thesis unfolding run by (rule runHistory_full [OF len])
qed

lemma traceHistory_first:
  "traceHistory (c # cs) ([], [])
     = (runHistory (c # cs) [],
        initLoop (fst c) (snd c) historyLength [] @ map (\<lambda>c. demoPoint (fst c) (snd c 0)) cs)"
proof -
  have "traceHistory (c # cs) ([], [])
          = traceHistory cs (generateDemoHistory (fst c) (snd c) [],
                             initLoop (fst c) (snd c) historyLength [])"
    by (simp add: traceHistory_def pushedBy_def)
  also have "\<dots> = (runHistory cs (generateDemoHistory (fst c) (snd c) []),
                  initLoop (fst c) (snd c) historyLength [] @ map (\<lambda>c. demoPoint (fst c) (snd c 0)) cs)"
    by (rule traceHistory_nonempty) (rule generateDemoHistory_nonempty)
  finally show ?thesis by (simp add: runHistory_Cons)
qed

lemma runHistory_window: "runHistory calls [] = lastN historyLength (snd (traceHistory calls ([], [])))"
proof (cases calls)
  case Nil
  then show ?thesis by (simp add: runHistory_def traceHistory_def lastN_def)
next
  case (Cons c cs)
  then show ?thesis using runHistory_first [of c cs] by (simp add: traceHistory_first)
qed

lemma runHistory_length: "length (runHistory calls []) \<le> historyLength"
proof (cases calls)
  case Nil
  then show ?thesis by (simp add: runHistory_def)
next
  case (Cons c cs)
  have "length (runHistory (c # cs) []) = historyLength"
    using runHistory_first [of c cs] by blast
  with Cons show ?thesis by simp
qed

lemma runHistory_recent:
  assumes "historyLength < length calls"
  shows "runHistory calls [] = map (\<lambda>c. demoPoint (fst c) (snd c 0)) (lastN historyLength calls)"
proof -
  obtain c cs where calls: "calls = c # cs" using assms by (cases calls) simp_all
  let ?init = "initLoop (fst c) (snd c) historyLength []"
  let ?pts = "map (\<lambda>c. demoPoint (fst c) (snd c 0)) cs"
  have len: "historyLength \<le> length cs" using assms calls by simp
  have "runHistory calls [] = lastN historyLength (?init @ ?pts)"
    using runHistory_first [of c cs] calls by simp
  also have "\<dots> = lastN historyLength ?pts"
    using len by (simp add: lastN_def length_initLoop)
  also have "\<dots> = map (\<lambda>c. demoPoint (fst c) (snd c 0)) (lastN historyLength cs)"
    by (simp add: lastN_def drop_map)
  also have "lastN historyLength cs = lastN historyLength calls"
    using len calls by (simp add: lastN_Cons)
  finally show ?thesis .
qed

lemma runHistory_sorted:
  assumes "sorted (map fst calls)"
  shows "sorted (map timestamp (runHistory calls []))"
proof (cases calls)
  case Nil
  then show ?thesis by (simp add: runHistory_def)
next
  case (Cons c cs)
  let ?init = "initLoop (fst c) (snd c) historyLength []"
  let ?pts = "map (\<lambda>c. demoPoint (fst c) (snd c 0)) cs"
  have ts: "map timestamp ?pts = map fst cs"
    by (induction cs) (simp_all add: timestamp_demoPoint)
  have later: "\<forall>t \<in> set (map fst cs). fst c \<le> t" and tail: "sorted (map fst cs)"
    using assms Cons by simp_all
  have "sorted (map timestamp ?init @ map fst cs)"
    unfolding sorted_append
    using sorted_initLoop [of "fst c" "snd c" historyLength] tail later
      initLoop_le_now [of _ "fst c" "snd c" historyLength]
    by (meson order_trans)
  then have "sorted (map timestamp (?init @ ?pts))" unfolding map_append ts .
  then have "sorted (lastN historyLength (map timestamp (?init @ ?pts)))"
    by (rule sorted_lastN)
  moreover have "map timestamp (runHistory calls [])
                  = lastN historyLength (map timestamp (?init @ ?pts))"
    using runHistory_first [of c cs] Cons by (simp add: lastN_def drop_map)
  ultimately show ?thesis by simp
qed


text \<open>
  Claim C2. Starting from the empty buffer, after every sequence of calls the buffer
  holds at most 60 snapshots (exactly 60 once a call was made) and is the last 60 of all
  snapshots pushed so far, in the order they were pushed. A push on a full buffer evicts the
  oldest snapshot, the head. After more than 60 calls the buffer is the snapshots of the last
  60 calls. When the clock readings of the calls do not decrease, the timestamps in the
  buffer do not decrease.
\<close>

theorem history_window:
  "length (runHistory calls []) \<le> historyLength \<and>
   historyLength = 60 \<and>
   (calls \<noteq> [] \<longrightarrow> length (runHistory calls []) = historyLength) \<and>
   runHistory calls [] = lastN historyLength (snd (traceHistory calls ([], []))) \<and>
   (length buf = historyLength \<longrightarrow>
      generateDemoHistory now rnd buf = tl buf @ [demoPoint now (rnd 0)]) \<and>
   (historyLength < length calls \<longrightarrow>
      runHistory calls [] = map (\<lambda>c. demoPoint (fst c) (snd c 0)) (lastN historyLength calls)) \<and>
   (sorted (map fst calls) \<longrightarrow> sorted (map timestamp (runHistory calls [])))"
proof -
  have a: "length (runHistory calls []) \<le> historyLength" by (rule runHistory_length)
  have b: "historyLength = 60" by (simp add: historyLength_def)
  have c: "calls \<noteq> [] \<longrightarrow> length (runHistory calls []) = historyLength"
  proof
    assume "calls \<noteq> []"
    then obtain c cs where "calls = c # cs" by (cases calls) simp_all
    moreover have "length (runHistory (c # cs) []) = historyLength"
      using runHistory_first [of c cs] by blast
    ultimately show "length (runHistory calls []) = historyLength" by simp
  qed
  have d: "runHistory calls [] = lastN historyLength (snd (traceHistory calls ([], [])))"
    by (rule runHistory_window)
  have e: "length buf = historyLength \<longrightarrow>
      generateDemoHistory now rnd buf = tl buf @ [demoPoint now (rnd 0)]"
    using generateDemoHistory_full by blast
  have f: "historyLength < length calls \<longrightarrow>
      runHistory calls [] = map (\<lambda>c. demoPoint (fst c) (snd c 0)) (lastN historyLength calls)"
    using runHistory_recent by blast
  have g: "sorted (map fst calls) \<longrightarrow> sorted (map timestamp (runHistory calls []))"
    using runHistory_sorted by blast
  from a b c d e f g show ?thesis by blast
qed

lemma sorted_map_int_upt: "sorted (map int [m..<n])"
  by (simp add: sorted_wrt_map sorted_wrt_mono_rel [OF _ sorted_wrt_upt])

theorem history_window_witness:
  "runHistory (map (\<lambda>i. (int i, \<lambda>k. (0, 0))) [0..<62]) []
     = map (\<lambda>i. demoPoint (int i) (0, 0)) [2..<62] \<and>
   sorted (map timestamp (runHistory (map (\<lambda>i. (int i, \<lambda>k. (0, 0))) [0..<62]) [])) \<and>
   length (runHistory (map (\<lambda>i. (int i, \<lambda>k. (0, 0))) [0..<62]) []) = 60 \<and>
   generateDemoHistory 7 (\<lambda>k. (0, 0)) (replicate 60 (demoPoint 1 (0, 0)))
     = replicate 59 (demoPoint 1 (0, 0)) @ [demoPoint 7 (0, 0)]"
proof -
  let ?calls = "map (\<lambda>i. (int i, (\<lambda>k. (0, 0)) :: Draws)) [0..<62]"
  let ?buf = "replicate 60 (demoPoint 1 (0, 0))"
  note w = history_window [of ?calls ?buf 7 "\<lambda>k. (0, 0)"]
  have h1: "?calls \<noteq> []" by simp
  have h2: "historyLength < length ?calls" by (simp add: historyLength_def)
  have h3: "sorted (map fst ?calls)" by (simp add: comp_def sorted_map_int_upt)
  have h4: "length ?buf = historyLength" by (simp add: historyLength_def)
  have r1: "runHistory ?calls [] = map (\<lambda>c. demoPoint (fst c) (snd c 0)) (lastN historyLength ?calls)"
    using w h2 by blast
  have l: "length ?calls - historyLength = 2" by (simp add: historyLength_def)
  have "lastN historyLength ?calls = map (\<lambda>i. (int i, (\<lambda>k. (0, 0)) :: Draws)) [2..<62]"
    unfolding lastN_def l by (simp only: drop_map drop_upt add_0)
  with r1 have c1: "runHistory ?calls [] = map (\<lambda>i. demoPoint (int i) (0, 0)) [2..<62]"
    by (simp add: comp_def)
  have c2: "sorted (map timestamp (runHistory ?calls []))" using w h3 by blast
  have "length (runHistory ?calls []) = historyLength" using w h1 by blast
  then have c3: "length (runHistory ?calls []) = 60" by (simp only: historyLength_def)
  have "generateDemoHistory 7 (\<lambda>k. (0, 0)) ?buf = tl ?buf @ [demoPoint 7 (0, 0)]"
    using w h4 by blast
  moreover have "tl ?buf = replicate 59 (demoPoint 1 (0, 0))"
    by (simp add: tl_replicate)
  ultimately have c4: "generateDemoHistory 7 (\<lambda>k. (0, 0)) ?buf
      = replicate 59 (demoPoint 1 (0, 0)) @ [demoPoint 7 (0, 0)]" by simp
  from c1 c2 c3 c4 show ?thesis by blast
qed

section \<open>Properties of the poll scheduler\<close>

lemma guarded_step: "guarded s \<Longrightarrow> guarded (step s e)"
  by (cases e) (auto simp: guarded_def refreshData_begin_def refreshData_finish_def)

lemma guarded_foldl: "guarded s \<Longrightarrow> guarded (foldl step s events)"
  by (induction events arbitrary: s) (simp_all add: guarded_step)

lemma guarded_run: "guarded (run events)"
  unfolding run_def by (rule guarded_foldl) (simp add: guarded_def idle_def)

lemma run_at_most_one: "inFlight (run events) \<le> 1"
  using guarded_run [of events] by (auto simp: guarded_def)

lemma run_trigger_dropped:
  "isRefreshing (run events) \<Longrightarrow> run (events @ [Trigger]) = run events"
  by (simp add: run_def refreshData_begin_def)

text \<open>
  Claim C1. In the React page a trigger that arrives while a cycle is in flight is not
  dropped: \<^verbatim>\<open>refreshData\<close> of \<^verbatim>\<open>Index.tsx\<close> does not test the flag, so two triggers before
  the first cycle settles leave two cycles in flight, and the first settlement clears the
  flag while a cycle is still running. The vanilla \<^verbatim>\<open>refreshData\<close> drops the second
  trigger on the same events.
\<close>

theorem refreshData_tsx_overlap:
  "inFlight (run_tsx [Trigger, Trigger]) = 2 \<and>
   run_tsx [Trigger, Trigger] \<noteq> run_tsx [Trigger] \<and>
   run_tsx [Trigger, Trigger, Settle] = \<lparr>isRefreshing = False, inFlight = 1\<rparr> \<and>
   inFlight (run [Trigger, Trigger]) = 1 \<and>
   run [Trigger, Trigger] = run [Trigger]"
  by (simp add: run_tsx_def run_def idle_def refreshData_tsx_begin_def
        refreshData_tsx_finish_def refreshData_begin_def)

section \<open>Properties of the data-access client\<close>

lemma refreshData_commit_independent:
  "clients (refreshData_commit False demo (Json c) rh rs st) = c \<and>
   history (refreshData_commit False demo rc (Json h) rs st) = h \<and>
   status (refreshData_commit False demo rc rh (Json s) st) = s"
  by (simp add: refreshData_commit_def fetchClients_def fetchHistory_def fetchStatus_def Let_def)

lemma fetch_defaults:
  "fetchClients False demoC NotOk = [] \<and> fetchClients False demoC NetworkFailure = [] \<and>
   fetchClients False demoC BadJson = [] \<and>
   fetchHistory False demoH NotOk = [] \<and> fetchHistory False demoH NetworkFailure = [] \<and>
   fetchHistory False demoH BadJson = [] \<and>
   fetchStatus False demoS NotOk
     = \<lparr>running = False, interface = ''unknown'', uptime = 0, version = None\<rparr> \<and>
   fetchStatus False demoS NetworkFailure
     = \<lparr>running = False, interface = ''unknown'', uptime = 0, version = None\<rparr> \<and>
   fetchStatus False demoS BadJson
     = \<lparr>running = False, interface = ''unknown'', uptime = 0, version = None\<rparr>"
  by (simp add: fetchClients_def fetchHistory_def fetchStatus_def)

text \<open>
  Claim C3. In the React client a read whose request fails has no default: it rejects,
  and the cycle commits nothing, also not the results of the reads that succeeded. With
  the device list request answered by a non-success status and the other three requests
  answered well, the page state after the cycle is the state before it. The vanilla client
  commits the empty device list and the other results at the same responses.
\<close>

theorem refreshData_tsx_aborts:
  "fetchClients_ts False demoC NotOk = Inl (Failed ''Failed to fetch clients'') \<and>
   refreshData_tsx_commit False demo NotOk (Json h) (Json t) (Json s) st = st \<and>
   refreshData_tsx_commit False demo (Json c) (Json h) (Json t) (Json s) st
     = st\<lparr>page_clients := c, page_history := h,
          page_totalTraffic := Some t, page_status := Some s\<rparr> \<and>
   refreshData_commit False demo NotOk (Json h) (Json s) st'
     = st'\<lparr>clients := [], history := h, status := s, totalTraffic := totalTraffic_of []\<rparr>"
  by (simp add: refreshData_tsx_commit_def fetchClients_ts_def fetchHistory_ts_def
        fetchTotalTraffic_ts_def fetchStatus_ts_def fetch_ts_def
        refreshData_commit_def fetchClients_def fetchHistory_def fetchStatus_def)

section \<open>Properties of the sort engine\<close>

subsection \<open>The comparators in closed form\<close>

lemma getField_numeric:
  "f \<noteq> Hostname \<Longrightarrow> f \<noteq> Ip \<Longrightarrow> \<exists>n. getField f c = JsNumber n"
  by (cases f) simp_all

lemma getField_defined: "f \<noteq> Hostname \<Longrightarrow> getField f c \<noteq> JsUndefined"
  by (cases f) simp_all

lemma compareClients_Hostname:
  "compareClients lc Hostname d a b
     = Inr (Some (if d = Asc then lc (sortKey a) (sortKey b) else lc (sortKey b) (sortKey a)))"
  by (simp add: compareClients_def sortKey_def Let_def)

lemma compareClients_Ip:
  "compareClients lc Ip d a b
     = Inr (Some (if d = Asc then lc (ip a) (ip b) else lc (ip b) (ip a)))"
  by (simp add: compareClients_def nullish_def Let_def)

lemma compareClients_numeric:
  "getField f a = JsNumber x \<Longrightarrow> getField f b = JsNumber y \<Longrightarrow>
   compareClients lc f d a b = Inr (Some (if d = Asc then x - y else y - x))"
proof -
  assume a: "getField f a = JsNumber x" and b: "getField f b = JsNumber y"
  then have f: "f \<noteq> Hostname" by (auto split: option.splits)
  show ?thesis
    using f by (simp add: compareClients_def a b nullish_def jsMinus_def Let_def)
qed

lemma compareClients_js_Hostname:
  "compareClients_js lc Hostname d a b
     = Inr (Some (if d = Asc then lc (sortKey a) (sortKey b) else lc (sortKey b) (sortKey a)))"
  by (cases "hostname a"; cases "hostname b")
     (simp_all add: compareClients_js_def sortKey_def Let_def logicalOr_def shortHostname_def)

lemma compareClients_js_numeric:
  "getField f a = JsNumber x \<Longrightarrow> getField f b = JsNumber y \<Longrightarrow>
   compareClients_js lc f d a b =
     (if x = 0
      then (if d = Asc then Inr (Some (lc [] (if y = 0 then [] else toString (JsNumber y))))
            else if y = 0 then Inr (Some (lc [] [])) else Inl TypeError)
      else Inr (Some (if d = Asc then x - y else y - x)))"
proof -
  assume a: "getField f a = JsNumber x" and b: "getField f b = JsNumber y"
  then have f: "f \<noteq> Hostname" by (auto split: option.splits)
  show ?thesis
    using f by (simp add: compareClients_js_def a b logicalOr_def jsMinus_def Let_def)
qed

text \<open>
  Where a comparator subtracts, the left operand is a number and the right one is a
  number or the fallback \<open>''\<close>: the cases of \<open>toNumber\<close> cover every subtraction.
\<close>

lemma subtraction_operands:
  "\<not> isString (nullish (getField f a) (JsString [])) \<Longrightarrow>
     (\<exists>n. nullish (getField f b) (JsString []) = JsNumber n)"
  "\<not> isString (logicalOr (getField f a) (JsString [])) \<Longrightarrow>
     (\<exists>n. logicalOr (getField f b) (JsString []) = JsNumber n)
     \<or> logicalOr (getField f b) (JsString []) = JsString []"
proof -
  show "\<not> isString (nullish (getField f a) (JsString [])) \<Longrightarrow>
     (\<exists>n. nullish (getField f b) (JsString []) = JsNumber n)"
    by (cases f) (auto simp: nullish_def split: option.splits)
  show "\<not> isString (logicalOr (getField f a) (JsString [])) \<Longrightarrow>
     (\<exists>n. logicalOr (getField f b) (JsString []) = JsNumber n)
     \<or> logicalOr (getField f b) (JsString []) = JsString []"
    by (cases f) (auto simp: logicalOr_def split: option.splits if_splits)
qed

subsection \<open>The sort\<close>

lemma insertSorted_mset:
  "insertSorted cmp x ys = Inr zs \<Longrightarrow> mset zs = add_mset x (mset ys)"
proof (induction ys arbitrary: zs)
  case Nil
  then show ?case by auto
next
  case (Cons y ys)
  then show ?case by (auto split: sum.splits if_splits)
qed

lemma arraySort_mset: "arraySort cmp xs = Inr ys \<Longrightarrow> mset ys = mset xs"
proof (induction xs arbitrary: ys)
  case Nil
  then show ?case by simp
next
  case (Cons x xs)
  then show ?case by (auto split: sum.splits dest: insertSorted_mset)
qed

lemma insertSorted_total:
  "(\<And>y. y \<in> set ys \<Longrightarrow> \<exists>v. cmp x y = Inr v) \<Longrightarrow> \<exists>zs. insertSorted cmp x ys = Inr zs"
proof (induction ys)
  case Nil
  show ?case by simp
next
  case (Cons y ys)
  obtain v where v: "cmp x y = Inr v" using Cons.prems by auto
  obtain zs where "insertSorted cmp x ys = Inr zs" using Cons by auto
  with v show ?case by simp
qed

lemma arraySort_total:
  "(\<And>x y. x \<in> set xs \<Longrightarrow> y \<in> set xs \<Longrightarrow> \<exists>v. cmp x y = Inr v) \<Longrightarrow>
   \<exists>ys. arraySort cmp xs = Inr ys"
proof (induction xs)
  case Nil
  show ?case by simp
next
  case (Cons x xs)
  obtain ys where ys: "arraySort cmp xs = Inr ys" using Cons by auto
  have "set ys = set xs" using arraySort_mset [OF ys] by (rule mset_eq_setD)
  then have "\<And>y. y \<in> set ys \<Longrightarrow> \<exists>v. cmp x y = Inr v" using Cons.prems by simp
  from insertSorted_total [of ys cmp x, OF this] ys show ?case by simp
qed

text \<open>
  Stability: the elements of a class \<open>P\<close> whose members never have to follow one another
  keep their order.
\<close>

lemma insertSorted_filter:
  assumes "insertSorted cmp x ys = Inr zs"
    and "\<And>y v. y \<in> set ys \<Longrightarrow> P x \<Longrightarrow> P y \<Longrightarrow> cmp x y = Inr v \<Longrightarrow> sortCompare v \<le> 0"
  shows "filter P zs = (if P x then x # filter P ys else filter P ys)"
  using assms
proof (induction ys arbitrary: zs)
  case Nil
  then show ?case by auto
next
  case (Cons y ys)
  from Cons.prems(1) obtain v where v: "cmp x y = Inr v" by (auto split: sum.splits)
  show ?case
  proof (cases "sortCompare v \<le> 0")
    case True
    with Cons.prems(1) v show ?thesis by auto
  next
    case False
    with Cons.prems(1) v obtain zs' where zs': "insertSorted cmp x ys = Inr zs'" "zs = y # zs'"
      by (auto split: sum.splits)
    have ih: "filter P zs' = (if P x then x # filter P ys else filter P ys)"
    proof (rule Cons.IH [OF zs'(1)])
      fix z w
      assume "z \<in> set ys" "P x" "P z" "cmp x z = Inr w"
      then show "sortCompare w \<le> 0" using Cons.prems(2) [of z w] by simp
    qed
    have "P x \<Longrightarrow> \<not> P y" using Cons.prems(2) [of y v] v False by auto
    with ih zs'(2) show ?thesis by auto
  qed
qed

lemma arraySort_stable:
  assumes "arraySort cmp xs = Inr ys"
    and "\<And>x y v. x \<in> set xs \<Longrightarrow> y \<in> set xs \<Longrightarrow> P x \<Longrightarrow> P y \<Longrightarrow> cmp x y = Inr v
           \<Longrightarrow> sortCompare v \<le> 0"
  shows "filter P ys = filter P xs"
  using assms
proof (induction xs arbitrary: ys)
  case Nil
  then show ?case by simp
next
  case (Cons x xs)
  from Cons.prems(1) obtain ys' where ys': "arraySort cmp xs = Inr ys'"
    and ins: "insertSorted cmp x ys' = Inr ys" by (auto split: sum.splits)
  have set: "set ys' = set xs" using arraySort_mset [OF ys'] by (rule mset_eq_setD)
  have ih: "filter P ys' = filter P xs"
  proof (rule Cons.IH [OF ys'])
    fix a b v
    assume "a \<in> set xs" "b \<in> set xs" "P a" "P b" "cmp a b = Inr v"
    then show "sortCompare v \<le> 0" using Cons.prems(2) [of a b v] by simp
  qed
  have "filter P ys = (if P x then x # filter P ys' else filter P ys')"
  proof (rule insertSorted_filter [OF ins])
    fix b v
    assume "b \<in> set ys'" "P x" "P b" "cmp x b = Inr v"
    then show "sortCompare v \<le> 0" using Cons.prems(2) [of x b v] set by simp
  qed
  with ih show ?case by simp
qed

text \<open>The output is ordered when the comparator is a total preorder on the input.\<close>

lemma insertSorted_set:
  "insertSorted cmp x ys = Inr zs \<Longrightarrow> set zs = insert x (set ys)"
proof -
  assume "insertSorted cmp x ys = Inr zs"
  then have "mset zs = add_mset x (mset ys)" by (rule insertSorted_mset)
  then have "set_mset (mset zs) = set_mset (add_mset x (mset ys))" by (rule arg_cong)
  then show ?thesis by simp
qed

lemma insertSorted_sorted:
  assumes "insertSorted cmp x ys = Inr zs" "sorted_wrt (notAfter cmp) ys"
    and total: "\<And>y. y \<in> set ys \<Longrightarrow> notAfter cmp x y \<or> notAfter cmp y x"
    and trans: "\<And>y z. y \<in> set ys \<Longrightarrow> z \<in> set ys \<Longrightarrow> notAfter cmp x y \<Longrightarrow> notAfter cmp y z
                 \<Longrightarrow> notAfter cmp x z"
  shows "sorted_wrt (notAfter cmp) zs"
  using assms
proof (induction ys arbitrary: zs)
  case Nil
  then show ?case by auto
next
  case (Cons y ys)
  from Cons.prems(1) obtain v where v: "cmp x y = Inr v" by (auto split: sum.splits)
  have tail: "sorted_wrt (notAfter cmp) ys" and head: "\<And>z. z \<in> set ys \<Longrightarrow> notAfter cmp y z"
    using Cons.prems(2) by simp_all
  show ?case
  proof (cases "sortCompare v \<le> 0")
    case True
    then have xy: "notAfter cmp x y" using v by (simp add: notAfter_def)
    have zs: "zs = x # y # ys" using Cons.prems(1) v True by simp
    have "\<And>z. z \<in> set ys \<Longrightarrow> notAfter cmp x z"
    proof -
      fix z assume z: "z \<in> set ys"
      show "notAfter cmp x z"
        by (rule Cons.prems(4) [of y z]) (use z xy head in simp_all)
    qed
    then show ?thesis unfolding zs using xy Cons.prems(2) by simp
  next
    case False
    with Cons.prems(1) v obtain zs' where zs': "insertSorted cmp x ys = Inr zs'" "zs = y # zs'"
      by (auto split: sum.splits)
    have "\<not> notAfter cmp x y" using v False by (simp add: notAfter_def)
    then have yx: "notAfter cmp y x" using Cons.prems(3) [of y] by simp
    have "sorted_wrt (notAfter cmp) zs'"
    proof (rule Cons.IH [OF zs'(1) tail])
      fix z assume "z \<in> set ys"
      then show "notAfter cmp x z \<or> notAfter cmp z x" using Cons.prems(3) [of z] by simp
    next
      fix z w assume "z \<in> set ys" "w \<in> set ys" "notAfter cmp x z" "notAfter cmp z w"
      then show "notAfter cmp x w" using Cons.prems(4) [of z w] by simp
    qed
    moreover have "\<And>z. z \<in> set zs' \<Longrightarrow> notAfter cmp y z"
      using insertSorted_set [OF zs'(1)] yx head by auto
    ultimately show ?thesis unfolding zs'(2) by simp
  qed
qed

lemma arraySort_sorted:
  assumes "arraySort cmp xs = Inr ys"
    and total: "\<And>x y. x \<in> set xs \<Longrightarrow> y \<in> set xs \<Longrightarrow> notAfter cmp x y \<or> notAfter cmp y x"
    and trans: "\<And>x y z. x \<in> set xs \<Longrightarrow> y \<in> set xs \<Longrightarrow> z \<in> set xs \<Longrightarrow>
                  notAfter cmp x y \<Longrightarrow> notAfter cmp y z \<Longrightarrow> notAfter cmp x z"
  shows "sorted_wrt (notAfter cmp) ys"
  using assms
proof (induction xs arbitrary: ys)
  case Nil
  from Nil.prems(1) show ?case by simp
next
  case (Cons x xs)
  from Cons.prems(1) obtain ys' where ys': "arraySort cmp xs = Inr ys'"
    and ins: "insertSorted cmp x ys' = Inr ys" by (auto split: sum.splits)
  have set: "set ys' = set xs" using arraySort_mset [OF ys'] by (rule mset_eq_setD)
  have s: "sorted_wrt (notAfter cmp) ys'"
  proof (rule Cons.IH [OF ys'])
    fix a b assume h: "a \<in> set xs" "b \<in> set xs"
    show "notAfter cmp a b \<or> notAfter cmp b a"
      by (rule Cons.prems(2)) (simp_all add: h)
  next
    fix a b c assume h: "a \<in> set xs" "b \<in> set xs" "c \<in> set xs"
      "notAfter cmp a b" "notAfter cmp b c"
    show "notAfter cmp a c"
      by (rule Cons.prems(3) [OF _ _ _ h(4) h(5)]) (simp_all add: h)
  qed
  show ?case
  proof (rule insertSorted_sorted [OF ins s])
    fix b assume "b \<in> set ys'"
    then have b: "b \<in> set xs" unfolding set .
    show "notAfter cmp x b \<or> notAfter cmp b x"
      by (rule Cons.prems(2)) (simp_all add: b)
  next
    fix b c assume h: "b \<in> set ys'" "c \<in> set ys'" "notAfter cmp x b" "notAfter cmp b c"
    from h(1,2) have bc: "b \<in> set xs" "c \<in> set xs" unfolding set .
    show "notAfter cmp x c"
      by (rule Cons.prems(3) [OF _ _ _ h(3) h(4)]) (simp_all add: bc)
  qed
qed

subsection \<open>The sort of the React table\<close>

lemma compareClients_total: "\<exists>v. compareClients lc f d a b = Inr (Some v)"
proof (cases "f = Hostname \<or> f = Ip")
  case True
  then show ?thesis by (auto simp: compareClients_Hostname compareClients_Ip)
next
  case False
  then obtain x y where "getField f a = JsNumber x" "getField f b = JsNumber y"
    using getField_numeric [of f a] getField_numeric [of f b] by auto
  then show ?thesis by (simp add: compareClients_numeric)
qed

lemma compareClients_class:
  assumes sym: "\<And>s t. lc s t = 0 \<Longrightarrow> lc t s = 0"
    and trans: "\<And>s t u. lc s t = 0 \<Longrightarrow> lc t u = 0 \<Longrightarrow> lc s u = 0"
    and ex: "compareClients lc f d e x = Inr (Some 0)"
    and ey: "compareClients lc f d e y = Inr (Some 0)"
  shows "compareClients lc f d x y = Inr (Some 0)"
proof -
  have str: "(if d = Asc then lc (k x) (k y) else lc (k y) (k x)) = 0"
    if a: "(if d = Asc then lc (k e) (k x) else lc (k x) (k e)) = 0"
      and b: "(if d = Asc then lc (k e) (k y) else lc (k y) (k e)) = 0"
    for k :: "ClientTraffic \<Rightarrow> string"
  proof (cases d)
    case Asc
    with a b have "lc (k e) (k x) = 0" "lc (k e) (k y) = 0" by simp_all
    then have "lc (k x) (k y) = 0" by (meson sym trans)
    with Asc show ?thesis by simp
  next
    case Desc
    with a b have "lc (k x) (k e) = 0" "lc (k y) (k e) = 0" by simp_all
    then have "lc (k y) (k x) = 0" by (meson sym trans)
    with Desc show ?thesis by simp
  qed
  consider "f = Hostname" | "f = Ip" | "f \<noteq> Hostname" "f \<noteq> Ip" by blast
  then show ?thesis
  proof cases
    case 1
    from ex ey show ?thesis
      unfolding 1 compareClients_Hostname using str [of sortKey] by simp
  next
    case 2
    from ex ey show ?thesis
      unfolding 2 compareClients_Ip using str [of ip] by simp
  next
    case 3
    then obtain a b c where n: "getField f e = JsNumber a" "getField f x = JsNumber b"
        "getField f y = JsNumber c"
      using getField_numeric [of f e] getField_numeric [of f x] getField_numeric [of f y]
      by auto
    from ex ey show ?thesis
      by (cases d) (simp_all add: compareClients_numeric [OF n(1) n(2)]
            compareClients_numeric [OF n(1) n(3)] compareClients_numeric [OF n(2) n(3)])
  qed
qed

text \<open>
  The React sort always returns, its output is a rearrangement of its input, and the
  devices that compare equal to any given device keep their relative order. The collation
  only has to treat "compares equal" as an equivalence.
\<close>

lemma sortedClients_stable:
  assumes sym: "\<And>s t. lc s t = 0 \<Longrightarrow> lc t s = 0"
    and trans: "\<And>s t u. lc s t = 0 \<Longrightarrow> lc t u = 0 \<Longrightarrow> lc s u = 0"
  shows "\<exists>ys. sortedClients lc spec cs = Inr ys \<and> mset ys = mset cs \<and>
           filter (\<lambda>c. compareClients lc (sortField spec) (sortDirection spec) e c = Inr (Some 0)) ys
           = filter (\<lambda>c. compareClients lc (sortField spec) (sortDirection spec) e c = Inr (Some 0)) cs"
proof -
  let ?cmp = "compareClients lc (sortField spec) (sortDirection spec)"
  have "\<exists>ys. arraySort ?cmp cs = Inr ys"
  proof (rule arraySort_total)
    fix x y
    show "\<exists>v. ?cmp x y = Inr v" using compareClients_total [of lc _ _ x y] by blast
  qed
  then obtain ys where ys: "arraySort ?cmp cs = Inr ys" by blast
  have m: "mset ys = mset cs" by (rule arraySort_mset [OF ys])
  have "filter (\<lambda>c. ?cmp e c = Inr (Some 0)) ys = filter (\<lambda>c. ?cmp e c = Inr (Some 0)) cs"
  proof (rule arraySort_stable [OF ys])
    fix x y v
    assume h: "?cmp e x = Inr (Some 0)" "?cmp e y = Inr (Some 0)" "?cmp x y = Inr v"
    have "?cmp x y = Inr (Some 0)" by (rule compareClients_class [OF sym trans h(1) h(2)])
    with h(3) have "v = Some 0" by simp
    then show "sortCompare v \<le> 0" by (simp add: sortCompare_def)
  qed
  with ys m show ?thesis by (simp add: sortedClients_def)
qed

text \<open>
  The output of the React sort is ordered by the comparator when the collation is a total
  preorder.
\<close>

lemma notAfter_compareClients:
  "notAfter (compareClients lc f d) a b =
     (if f = Hostname then (if d = Asc then lc (sortKey a) (sortKey b) \<le> 0
                            else lc (sortKey b) (sortKey a) \<le> 0)
      else if f = Ip then (if d = Asc then lc (ip a) (ip b) \<le> 0 else lc (ip b) (ip a) \<le> 0)
      else (if d = Asc then numberOf f a \<le> numberOf f b
            else numberOf f b \<le> numberOf f a))"
proof -
  consider "f = Hostname" | "f = Ip" | "f \<noteq> Hostname" "f \<noteq> Ip" by blast
  then show ?thesis
  proof cases
    case 1
    then show ?thesis by (simp add: notAfter_def compareClients_Hostname sortCompare_def)
  next
    case 2
    then show ?thesis by (simp add: notAfter_def compareClients_Ip sortCompare_def)
  next
    case 3
    then obtain x y where n: "getField f a = JsNumber x" "getField f b = JsNumber y"
      using getField_numeric [of f a] getField_numeric [of f b] by auto
    with 3 show ?thesis
      by (simp add: notAfter_def compareClients_numeric [OF n] sortCompare_def numberOf_def)
  qed
qed

lemma sortedClients_ordered:
  assumes total: "\<And>s t. lc s t \<le> 0 \<or> lc t s \<le> 0"
    and trans: "\<And>s t u. lc s t \<le> 0 \<Longrightarrow> lc t u \<le> 0 \<Longrightarrow> lc s u \<le> 0"
    and ys: "sortedClients lc spec cs = Inr ys"
  shows "sorted_wrt (notAfter (compareClients lc (sortField spec) (sortDirection spec))) ys"
proof (rule arraySort_sorted)
  show "arraySort (compareClients lc (sortField spec) (sortDirection spec)) cs = Inr ys"
    using ys by (simp add: sortedClients_def)
next
  fix x y
  show "notAfter (compareClients lc (sortField spec) (sortDirection spec)) x y
        \<or> notAfter (compareClients lc (sortField spec) (sortDirection spec)) y x"
    unfolding notAfter_compareClients using total by auto
next
  fix x y z
  assume h: "notAfter (compareClients lc (sortField spec) (sortDirection spec)) x y"
    "notAfter (compareClients lc (sortField spec) (sortDirection spec)) y z"
  note t1 = trans [of "sortKey x" "sortKey y" "sortKey z"]
    and t2 = trans [of "sortKey z" "sortKey y" "sortKey x"]
    and t3 = trans [of "ip x" "ip y" "ip z"]
    and t4 = trans [of "ip z" "ip y" "ip x"]
  from h t1 t2 t3 t4
  show "notAfter (compareClients lc (sortField spec) (sortDirection spec)) x z"
    unfolding notAfter_compareClients
    by (cases "sortField spec = Hostname"; cases "sortField spec = Ip";
        cases "sortDirection spec = Asc") simp_all
qed

subsection \<open>Claims about the sort\<close>

lemma sortKey_unknown:
  "hostname c = None \<or> hostname c = Some [] \<Longrightarrow> sortKey c = ''unknown''"
  by (auto simp: sortKey_def shortHostname_def toLowerCase_def toLowerChar_def char_of_def bit_0)

lemma sortKey_name_unknown: "sortKey (c\<lparr>hostname := Some ''unknown''\<rparr>) = ''unknown''"
  by (simp add: sortKey_def shortHostname_def toLowerCase_def toLowerChar_def)

lemma getField_hostname_update:
  "f \<noteq> Hostname \<Longrightarrow> getField f (c\<lparr>hostname := h\<rparr>) = getField f c"
  by (cases f) simp_all

lemma compareClients_other_field:
  "f \<noteq> Hostname \<Longrightarrow>
   compareClients lc f d (a\<lparr>hostname := h\<rparr>) b = compareClients lc f d a b \<and>
   compareClients lc f d b (a\<lparr>hostname := h\<rparr>) = compareClients lc f d b a \<and>
   compareClients_js lc f d (a\<lparr>hostname := h\<rparr>) b = compareClients_js lc f d a b \<and>
   compareClients_js lc f d b (a\<lparr>hostname := h\<rparr>) = compareClients_js lc f d b a"
  by (simp add: compareClients_def compareClients_js_def getField_hostname_update)

text \<open>
  Claim C4. The sort of the React table is stable (lemmas \<open>sortedClients_stable\<close> and
  \<open>sortedClients_ordered\<close>) and keeps \<open>b\<close> before \<open>a\<close> in the example of two devices with
  equal rates. The vanilla table does not sort every list: with the default sort (download
  rate, descending), the fallback \<^verbatim>\<open>|| ''\<close> turns a rate of \<open>0\<close> into the empty string,
  the comparator takes the string branch and calls \<^verbatim>\<open>bVal.localeCompare\<close> on the number
  of the other device, which raises a \<^verbatim>\<open>TypeError\<close>. On an idle, a busy and another idle
  device the comparator raises for either idle device against the busy one, and there is no
  sorted output in which the two idle devices, which compare equal, could keep their order.
\<close>

theorem updateClientsTable_sorted_raises:
  "compareClients_js lc DownloadSpeed Desc (a\<lparr>downloadSpeed := 0\<rparr>) (b\<lparr>downloadSpeed := 5\<rparr>)
     = Inl TypeError \<and>
   compareClients_js lc DownloadSpeed Desc (c\<lparr>downloadSpeed := 0\<rparr>) (b\<lparr>downloadSpeed := 5\<rparr>)
     = Inl TypeError \<and>
   compareClients_js lc DownloadSpeed Desc (a\<lparr>downloadSpeed := 0\<rparr>) (c\<lparr>downloadSpeed := 0\<rparr>)
     = Inr (Some (lc [] [])) \<and>
   updateClientsTable_sorted lc \<lparr>sortField = DownloadSpeed, sortDirection = Desc\<rparr>
       [a\<lparr>downloadSpeed := 0\<rparr>, b\<lparr>downloadSpeed := 5\<rparr>, c\<lparr>downloadSpeed := 0\<rparr>]
     = Inl TypeError \<and>
   sortedClients lc \<lparr>sortField = DownloadSpeed, sortDirection = Desc\<rparr>
       [a\<lparr>downloadSpeed := 0\<rparr>, b\<lparr>downloadSpeed := 5\<rparr>, c\<lparr>downloadSpeed := 0\<rparr>]
     = Inr [b\<lparr>downloadSpeed := 5\<rparr>, a\<lparr>downloadSpeed := 0\<rparr>, c\<lparr>downloadSpeed := 0\<rparr>] \<and>
   sortedClients lc \<lparr>sortField = DownloadSpeed, sortDirection = Desc\<rparr>
       [b\<lparr>downloadSpeed := 1\<rparr>, a\<lparr>downloadSpeed := 1\<rparr>]
     = Inr [b\<lparr>downloadSpeed := 1\<rparr>, a\<lparr>downloadSpeed := 1\<rparr>]"
  by (simp add: updateClientsTable_sorted_def sortedClients_def compareClients_js_def
        compareClients_def logicalOr_def nullish_def jsMinus_def sortCompare_def Let_def)

text \<open>
  Claim C5, as the claim states it, fails: a device without a display name is not ordered
  as the empty string but as \<open>unknown\<close>. With strings compared by their bytes the empty
  string comes before \<open>alice\<close>, yet both tables put the nameless device after \<open>alice\<close>.
\<close>

theorem missing_hostname_counterexample:
  "sortKey (exampleDevice None 1) = ''unknown'' \<and>
   codeUnitCompare [] ''alice'' < 0 \<and>
   compareClients codeUnitCompare Hostname Asc
       (exampleDevice None 1) (exampleDevice (Some ''alice'') 1) = Inr (Some 1) \<and>
   sortedClients codeUnitCompare \<lparr>sortField = Hostname, sortDirection = Asc\<rparr>
       [exampleDevice None 1, exampleDevice (Some ''alice'') 1]
     = Inr [exampleDevice (Some ''alice'') 1, exampleDevice None 1] \<and>
   updateClientsTable_sorted codeUnitCompare \<lparr>sortField = Hostname, sortDirection = Asc\<rparr>
       [exampleDevice None 1, exampleDevice (Some ''alice'') 1]
     = Inr [exampleDevice (Some ''alice'') 1, exampleDevice None 1]"
  by (simp add: exampleDevice_def sortKey_def shortHostname_def toLowerCase_def toLowerChar_def
        char_of_def bit_0 sortedClients_def updateClientsTable_sorted_def
        compareClients_def compareClients_js_def nullish_def logicalOr_def sortCompare_def Let_def)


text \<open>
  Claim C5, amended. Only the display name can be missing: the numeric sort fields and the
  address are required fields of a device and are never \<^verbatim>\<open>undefined\<close>. A device whose
  display name is missing or empty is compared, under every sort field and direction and by
  both tables, exactly as the same device named \<open>unknown\<close>. No device is ever excluded: the
  React sort always returns a rearrangement of its input, and whenever the vanilla sort
  returns, its output is a rearrangement of its input.
\<close>

theorem missing_value_sorting:
  "(hostname a = None \<or> hostname a = Some [] \<longrightarrow>
      compareClients lc f d a b = compareClients lc f d (a\<lparr>hostname := Some ''unknown''\<rparr>) b \<and>
      compareClients lc f d b a = compareClients lc f d b (a\<lparr>hostname := Some ''unknown''\<rparr>) \<and>
      compareClients_js lc f d a b = compareClients_js lc f d (a\<lparr>hostname := Some ''unknown''\<rparr>) b \<and>
      compareClients_js lc f d b a = compareClients_js lc f d b (a\<lparr>hostname := Some ''unknown''\<rparr>)) \<and>
   (f \<noteq> Hostname \<longrightarrow> getField f a \<noteq> JsUndefined) \<and>
   (\<exists>ys. sortedClients lc spec cs = Inr ys \<and> mset ys = mset cs) \<and>
   (updateClientsTable_sorted lc spec cs = Inr zs \<longrightarrow> mset zs = mset cs)"
proof -
  have p1: "hostname a = None \<or> hostname a = Some [] \<longrightarrow>
      compareClients lc f d a b = compareClients lc f d (a\<lparr>hostname := Some ''unknown''\<rparr>) b \<and>
      compareClients lc f d b a = compareClients lc f d b (a\<lparr>hostname := Some ''unknown''\<rparr>) \<and>
      compareClients_js lc f d a b = compareClients_js lc f d (a\<lparr>hostname := Some ''unknown''\<rparr>) b \<and>
      compareClients_js lc f d b a = compareClients_js lc f d b (a\<lparr>hostname := Some ''unknown''\<rparr>)"
  proof
    assume h: "hostname a = None \<or> hostname a = Some []"
    show "compareClients lc f d a b = compareClients lc f d (a\<lparr>hostname := Some ''unknown''\<rparr>) b \<and>
      compareClients lc f d b a = compareClients lc f d b (a\<lparr>hostname := Some ''unknown''\<rparr>) \<and>
      compareClients_js lc f d a b = compareClients_js lc f d (a\<lparr>hostname := Some ''unknown''\<rparr>) b \<and>
      compareClients_js lc f d b a = compareClients_js lc f d b (a\<lparr>hostname := Some ''unknown''\<rparr>)"
    proof (cases "f = Hostname")
      case True
      show ?thesis
        unfolding True compareClients_Hostname compareClients_js_Hostname
          sortKey_unknown [OF h] sortKey_name_unknown by simp
    next
      case False
      then show ?thesis
        using compareClients_other_field [where f = f and lc = lc and d = d and a = a
            and b = b and h = "Some ''unknown''"]
        by simp
    qed
  qed
  have p2: "f \<noteq> Hostname \<longrightarrow> getField f a \<noteq> JsUndefined"
    using getField_defined by blast
  have "\<exists>ys. arraySort (compareClients lc (sortField spec) (sortDirection spec)) cs = Inr ys"
  proof (rule arraySort_total)
    fix x y
    show "\<exists>v. compareClients lc (sortField spec) (sortDirection spec) x y = Inr v"
      using compareClients_total [of lc _ _ x y] by blast
  qed
  then obtain ys where ys: "sortedClients lc spec cs = Inr ys" by (auto simp: sortedClients_def)
  then have "mset ys = mset cs" by (simp add: sortedClients_def arraySort_mset)
  with ys have p3: "\<exists>ys. sortedClients lc spec cs = Inr ys \<and> mset ys = mset cs" by blast
  have p4: "updateClientsTable_sorted lc spec cs = Inr zs \<longrightarrow> mset zs = mset cs"
    by (simp add: updateClientsTable_sorted_def arraySort_mset)
  from p1 p2 p3 p4 show ?thesis by blast
qed

theorem missing_value_sorting_witness:
  "compareClients codeUnitCompare Hostname Asc (exampleDevice None 1) (exampleDevice (Some ''alice'') 2)
     = compareClients codeUnitCompare Hostname Asc
         (exampleDevice (Some ''unknown'') 1) (exampleDevice (Some ''alice'') 2) \<and>
   compareClients_js codeUnitCompare Hostname Asc (exampleDevice None 1) (exampleDevice (Some ''alice'') 2)
     = Inr (Some 1) \<and>
   getField DownloadSpeed (exampleDevice None 1) = JsNumber 1 \<and>
   mset [exampleDevice (Some ''alice'') 2, exampleDevice None 1]
     = mset [exampleDevice None 1, exampleDevice (Some ''alice'') 2]"
proof -
  note w = missing_value_sorting [of "exampleDevice None 1" codeUnitCompare Hostname Asc
      "exampleDevice (Some ''alice'') 2"
      "\<lparr>sortField = Hostname, sortDirection = Asc\<rparr>"
      "[exampleDevice None 1, exampleDevice (Some ''alice'') 2]"
      "[exampleDevice (Some ''alice'') 2, exampleDevice None 1]"]
  have h1: "hostname (exampleDevice None 1) = None \<or> hostname (exampleDevice None 1) = Some []"
    by (simp add: exampleDevice_def)
  have u: "(exampleDevice None 1)\<lparr>hostname := Some ''unknown''\<rparr> = exampleDevice (Some ''unknown'') 1"
    by (simp add: exampleDevice_def)
  have h2: "updateClientsTable_sorted codeUnitCompare \<lparr>sortField = Hostname, sortDirection = Asc\<rparr>
       [exampleDevice None 1, exampleDevice (Some ''alice'') 2]
     = Inr [exampleDevice (Some ''alice'') 2, exampleDevice None 1]"
    by (simp add: exampleDevice_def shortHostname_def toLowerCase_def toLowerChar_def
        char_of_def bit_0 updateClientsTable_sorted_def
        compareClients_js_def logicalOr_def sortCompare_def Let_def)
  have c1: "compareClients codeUnitCompare Hostname Asc (exampleDevice None 1) (exampleDevice (Some ''alice'') 2)
     = compareClients codeUnitCompare Hostname Asc
         (exampleDevice (Some ''unknown'') 1) (exampleDevice (Some ''alice'') 2)"
    using w h1 unfolding u by blast
  have "compareClients_js codeUnitCompare Hostname Asc (exampleDevice None 1) (exampleDevice (Some ''alice'') 2)
     = compareClients_js codeUnitCompare Hostname Asc
         (exampleDevice (Some ''unknown'') 1) (exampleDevice (Some ''alice'') 2)"
    using w h1 unfolding u by blast
  also have "\<dots> = Inr (Some 1)"
    by (simp add: exampleDevice_def shortHostname_def toLowerCase_def toLowerChar_def
        char_of_def bit_0 compareClients_js_def logicalOr_def Let_def)
  finally have c2: "compareClients_js codeUnitCompare Hostname Asc (exampleDevice None 1)
      (exampleDevice (Some ''alice'') 2) = Inr (Some 1)" .
  have c3: "getField DownloadSpeed (exampleDevice None 1) = JsNumber 1"
    by (simp add: exampleDevice_def)
  have c4: "mset [exampleDevice (Some ''alice'') 2, exampleDevice None 1]
     = mset [exampleDevice None 1, exampleDevice (Some ''alice'') 2]"
    using w h2 by blast
  from c1 c2 c3 c4 show ?thesis by blast
qed

text \<open>
  Claim C9, as the claim states it, fails: the order key is not trimmed. A leading blank
  stays in the key, so \<open>'' router''\<close> and \<open>''router''\<close> have different keys and do not
  compare equal.
\<close>

theorem sortKey_not_trimmed:
  "sortKey (exampleDevice (Some '' router'') 1) = '' router'' \<and>
   sortKey (exampleDevice (Some ''router'') 1) = ''router'' \<and>
   sortKey (exampleDevice (Some '' router'') 1) \<noteq> sortKey (exampleDevice (Some ''router'') 1) \<and>
   compareClients codeUnitCompare Hostname Asc
       (exampleDevice (Some '' router'') 1) (exampleDevice (Some ''router'') 1) = Inr (Some (- 1)) \<and>
   compareClients_js codeUnitCompare Hostname Asc
       (exampleDevice (Some '' router'') 1) (exampleDevice (Some ''router'') 1) = Inr (Some (- 1))"
  by (simp add: exampleDevice_def sortKey_def shortHostname_def toLowerCase_def toLowerChar_def
        char_of_def bit_0 compareClients_def compareClients_js_def nullish_def logicalOr_def
        Let_def)

text \<open>
  Claim C9, amended. Sorting by display name compares, with the platform's
  \<^verbatim>\<open>localeCompare\<close> and in the order the direction asks for, the keys of the two devices;
  the key of a non-empty name is its part before the first dot, in lower case, and it is
  not trimmed. \<open>Router.local\<close> and \<open>router\<close> have the same key \<open>router\<close>, so the two
  names are interchangeable in every comparison. Both tables compare so.
\<close>

theorem hostname_order_key:
  "compareClients lc Hostname d a b
     = Inr (Some (if d = Asc then lc (sortKey a) (sortKey b) else lc (sortKey b) (sortKey a))) \<and>
   compareClients_js lc Hostname d a b = compareClients lc Hostname d a b \<and>
   (hostname c = Some h \<and> h \<noteq> [] \<longrightarrow>
      sortKey c = toLowerCase (takeWhile (\<lambda>x. x \<noteq> CHR ''.'') h)) \<and>
   sortKey (c\<lparr>hostname := Some ''Router.local''\<rparr>) = ''router'' \<and>
   sortKey (c\<lparr>hostname := Some ''router''\<rparr>) = ''router'' \<and>
   compareClients lc Hostname d (a\<lparr>hostname := Some ''Router.local''\<rparr>) b
     = compareClients lc Hostname d (a\<lparr>hostname := Some ''router''\<rparr>) b \<and>
   compareClients lc Hostname d b (a\<lparr>hostname := Some ''Router.local''\<rparr>)
     = compareClients lc Hostname d b (a\<lparr>hostname := Some ''router''\<rparr>)"
proof -
  have k1: "sortKey (x\<lparr>hostname := Some ''Router.local''\<rparr>) = ''router''" for x
    by (simp add: sortKey_def shortHostname_def toLowerCase_def toLowerChar_def char_of_def bit_0)
  have k2: "sortKey (x\<lparr>hostname := Some ''router''\<rparr>) = ''router''" for x
    by (simp add: sortKey_def shortHostname_def toLowerCase_def toLowerChar_def char_of_def bit_0)
  have p3: "hostname c = Some h \<and> h \<noteq> [] \<longrightarrow>
      sortKey c = toLowerCase (takeWhile (\<lambda>x. x \<noteq> CHR ''.'') h)"
    by (simp add: sortKey_def shortHostname_def)
  show ?thesis
    unfolding compareClients_Hostname compareClients_js_Hostname k1 k2
    using p3 by simp
qed

theorem hostname_order_key_witness:
  "sortKey (exampleDevice (Some ''Gaming-PC.lan.home'') 1) = ''gaming-pc'' \<and>
   compareClients codeUnitCompare Hostname Desc
     (exampleDevice (Some ''Router.local'') 1) (exampleDevice (Some ''router'') 2) = Inr (Some 0)"
proof -
  note w = hostname_order_key [of codeUnitCompare Desc
      "exampleDevice (Some ''Router.local'') 1" "exampleDevice (Some ''router'') 2"
      "exampleDevice (Some ''Gaming-PC.lan.home'') 1" "''Gaming-PC.lan.home''"]
  have h: "hostname (exampleDevice (Some ''Gaming-PC.lan.home'') 1) = Some ''Gaming-PC.lan.home''
      \<and> ''Gaming-PC.lan.home'' \<noteq> []"
    by (simp add: exampleDevice_def)
  have "sortKey (exampleDevice (Some ''Gaming-PC.lan.home'') 1)
          = toLowerCase (takeWhile (\<lambda>x. x \<noteq> CHR ''.'') ''Gaming-PC.lan.home'')"
    using w h by blast
  also have "\<dots> = ''gaming-pc''"
    by (simp add: toLowerCase_def toLowerChar_def char_of_def bit_0)
  finally have c1: "sortKey (exampleDevice (Some ''Gaming-PC.lan.home'') 1) = ''gaming-pc''" .
  have "compareClients codeUnitCompare Hostname Desc
     (exampleDevice (Some ''Router.local'') 1) (exampleDevice (Some ''router'') 2)
     = Inr (Some (codeUnitCompare (sortKey (exampleDevice (Some ''router'') 2))
                    (sortKey (exampleDevice (Some ''Router.local'') 1))))"
    using w by simp
  also have "\<dots> = Inr (Some 0)"
    by (simp add: exampleDevice_def sortKey_def shortHostname_def toLowerCase_def
        toLowerChar_def char_of_def bit_0)
  finally have c2: "compareClients codeUnitCompare Hostname Desc
     (exampleDevice (Some ''Router.local'') 1) (exampleDevice (Some ''router'') 2) = Inr (Some 0)" .
  from c1 c2 show ?thesis by blast
qed


end
